(* ===== verification/Bridge_Prelude.thy ===== *)
theory Bridge_Prelude
  imports Main
begin

text \<open>
  Shared vocabulary of the bridge model (src/app/src/main/jni/bridge.cpp): protocol lines
  as byte strings, the newline and NUL bytes, the \<open>int_type\<close> of
  \<open>std::char_traits<char>\<close> that \<open>std::streambuf\<close> hands characters around in,
  the rendering of a list of lines as a newline-terminated character stream, the
  line splitting that \<open>std::getline\<close> and the output buffer both perform, and the
  truncation at the first NUL byte that a C string (\<open>c_str()\<close>,
  \<open>GetStringUTFChars\<close>) imposes. The lemmas here are the generic facts the
  component theories share: the split/render round trip and the NUL truncation.
\<close>

named_theorems bridge_simps \<open>rewrite rules shared by the component theories\<close>

type_synonym line = string
type_synonym int_type = int

abbreviation NL :: char where
  "NL \<equiv> CHR 0x0A"

abbreviation NUL :: char where
  "NUL \<equiv> CHR 0x00"

text \<open>\<open>std::char_traits<char>\<close>: \<open>eof()\<close> is -1 and \<open>to_int_type\<close> reads the char
  as an unsigned byte, so no character is ever confused with \<open>eof()\<close>.\<close>

definition eof :: int_type where
  "eof = -1"

definition to_int_type :: "char \<Rightarrow> int_type" where
  "to_int_type c = of_char c"

text \<open>A line carries no newline byte: the unit the bridge moves.\<close>

definition no_nl :: "string \<Rightarrow> bool" where
  "no_nl s \<longleftrightarrow> NL \<notin> set s"

text \<open>A list of lines rendered as the character stream a reader of them sees.\<close>

definition terminated :: "line list \<Rightarrow> string" where
  "terminated ls = concat (map (\<lambda>l. l @ [NL]) ls)"

text \<open>Splitting a character stream at newlines: the complete lines and the
  unterminated rest, with \<open>acc\<close> the part of the current line read so far.\<close>

fun split_lines :: "string \<Rightarrow> string \<Rightarrow> line list \<times> string" where
  "split_lines acc [] = ([], acc)"
| "split_lines acc (c # cs) =
     (if c = NL then (case split_lines [] cs of (ls, r) \<Rightarrow> (acc # ls, r))
      else split_lines (acc @ [c]) cs)"

text \<open>The reference line reader on a character stream: the characters before the
  first newline and the rest after it, or nothing while no newline has arrived.\<close>

fun stream_getline :: "string \<Rightarrow> (line \<times> string) option" where
  "stream_getline [] = None"
| "stream_getline (c # cs) =
     (if c = NL then Some ([], cs) else map_option (\<lambda>(l, r). (c # l, r)) (stream_getline cs))"

text \<open>A \<open>std::string\<close> built from a \<open>const char\<close> pointer, and \<open>c_str()\<close> read
  through a C API: the string up to its first NUL byte.\<close>

definition cstr :: "string \<Rightarrow> string" where
  "cstr s = takeWhile (\<lambda>c. c \<noteq> NUL) s"

subsection \<open>Generic lemmas\<close>

lemma terminated_Nil [simp, bridge_simps]: "terminated [] = []"
  by (simp add: terminated_def)

lemma terminated_Cons [simp, bridge_simps]: "terminated (l # ls) = l @ NL # terminated ls"
  by (simp add: terminated_def)

lemma terminated_append [simp, bridge_simps]:
  "terminated (ls @ ms) = terminated ls @ terminated ms"
  by (simp add: terminated_def)

lemma terminated_snoc: "terminated (ls @ [l]) = terminated ls @ l @ [NL]"
  by simp

lemma no_nl_append [simp, bridge_simps]: "no_nl (xs @ ys) \<longleftrightarrow> no_nl xs \<and> no_nl ys"
  by (auto simp: no_nl_def)

lemma no_nl_Nil [simp, bridge_simps]: "no_nl []"
  by (simp add: no_nl_def)

lemma no_nl_Cons [simp, bridge_simps]: "no_nl (c # s) \<longleftrightarrow> c \<noteq> NL \<and> no_nl s"
  by (auto simp: no_nl_def)

lemma to_int_type_inj [simp, bridge_simps]: "to_int_type c = to_int_type d \<longleftrightarrow> c = d"
  by (simp add: to_int_type_def)

lemma to_int_type_not_eof [simp, bridge_simps]: "to_int_type c \<noteq> eof"
proof -
  have "(of_char c :: int) = of_nat (of_char c)" by (simp only: of_nat_of_char)
  then have "0 \<le> (of_char c :: int)" by simp
  then show ?thesis by (simp add: to_int_type_def eof_def)
qed

lemma char_of_to_int_type [simp, bridge_simps]: "char_of (to_int_type c) = c"
  by (simp add: to_int_type_def)

lemma to_int_type_NL_iff [bridge_simps]: "to_int_type c = 10 \<longleftrightarrow> c = NL"
proof -
  have "(10 :: int) = to_int_type NL" by (simp add: to_int_type_def)
  then show ?thesis by (simp only: to_int_type_inj)
qed

lemma split_lines_no_nl_prefix:
  "no_nl xs \<Longrightarrow> split_lines acc (xs @ s) = split_lines (acc @ xs) s"
  by (induction xs arbitrary: acc) auto

lemma split_lines_acc: "no_nl acc \<Longrightarrow> split_lines acc s = split_lines [] (acc @ s)"
  using split_lines_no_nl_prefix [of acc "[]" s] by simp

text \<open>Rendering then splitting gives back the lines and the unterminated rest.\<close>

lemma split_lines_terminated [bridge_simps]:
  "list_all no_nl ls \<Longrightarrow> no_nl p \<Longrightarrow> split_lines [] (terminated ls @ p) = (ls, p)"
proof (induction ls)
  case Nil
  then show ?case using split_lines_no_nl_prefix [of p "[]" "[]"] by simp
next
  case (Cons l ls)
  then have "split_lines [] (l @ NL # terminated ls @ p) = split_lines l (NL # terminated ls @ p)"
    using split_lines_no_nl_prefix [of l "[]"] by simp
  with Cons show ?case by simp
qed

text \<open>Splitting then rendering gives back the stream.\<close>

lemma terminated_split_lines [bridge_simps]:
  "terminated (fst (split_lines acc s)) @ snd (split_lines acc s) = acc @ s"
  by (induction acc s rule: split_lines.induct) (auto split: prod.splits)

lemma split_lines_no_nl:
  "no_nl acc \<Longrightarrow> list_all no_nl (fst (split_lines acc s)) \<and> no_nl (snd (split_lines acc s))"
  by (induction acc s rule: split_lines.induct) (auto split: prod.splits)

lemma split_lines_snoc_char:
  "split_lines acc (s @ [c]) =
     (let (ls, r) = split_lines acc s in if c = NL then (ls @ [r], []) else (ls, r @ [c]))"
  by (induction acc s rule: split_lines.induct) (auto split: prod.splits)

lemma map_filter_append [simp, bridge_simps]:
  "List.map_filter f (xs @ ys) = List.map_filter f xs @ List.map_filter f ys"
  by (simp add: List.map_filter_def)

lemma dropWhile_neq_found:
  "x \<in> set xs \<Longrightarrow> dropWhile (\<lambda>c. c \<noteq> x) xs = x # tl (dropWhile (\<lambda>c. c \<noteq> x) xs)"
  by (induction xs) auto

lemma list_all_update [bridge_simps]:
  "list_all P xs \<Longrightarrow> P x \<Longrightarrow> list_all P (xs[i := x])"
  by (induction xs arbitrary: i) (auto split: nat.splits)

lemma cstr_no_nul [simp, bridge_simps]: "NUL \<notin> set s \<Longrightarrow> cstr s = s"
  by (auto simp: cstr_def)

lemma cstr_prefix: "cstr s @ dropWhile (\<lambda>c. c \<noteq> NUL) s = s"
  by (simp add: cstr_def)

lemma cstr_terminated: "NUL \<notin> set s \<Longrightarrow> cstr (s @ NUL # r) = s"
  by (induction s) (auto simp: cstr_def)

lemma cstr_no_nul_result: "NUL \<notin> set (cstr s)"
  by (auto simp: cstr_def dest: set_takeWhileD)

lemma cstr_idem [simp]: "cstr (cstr s) = cstr s"
  by (simp add: cstr_no_nul_result)

end
