(* ===== verification/Stream_Buffers.thy ===== *)
theory Stream_Buffers
  imports Bridge_Prelude
begin

text \<open>
  The two stream adapters of bridge.cpp (lines 39-71), the buffers that
  \<open>nativeInit\<close> installs under \<open>std::cin\<close> and \<open>std::cout\<close>, together with the
  part of the standard library through which the worker reaches them:
  \<^item> \<open>InputBuffer::underflow\<close> waits for the input queue to be non-empty, takes its
    front line, appends a newline and makes that the get area. The get area is the
    record \<open>inbuf\<close>: \<open>currentLine\<close> and the offset \<open>gnext\<close> of \<open>gptr()\<close> in it
    (\<open>eback()\<close> is offset 0, \<open>egptr()\<close> the end). Waiting on an empty queue is
    the value \<open>None\<close>: the call does not return in that state.
  \<^item> \<open>std::streambuf::sbumpc\<close> (libc++, the NDK's C++ library: take \<open>*gptr()\<close> and advance, or call
    \<open>uflow\<close>, that is \<open>underflow\<close> then advance) and \<open>std::getline\<close> are the
    worker's read path.
  \<^item> \<open>OutputBuffer::overflow\<close> receives every character the worker writes (the
    buffer never sets a put area, so \<open>sputc\<close> always calls it), collects it in
    \<open>lineBuffer\<close> and moves the buffer to the output queue on a newline.
  The queues are \<open>std::queue<std::string>\<close>, modelled as lists with the front first.
  The abstraction functions \<open>in_stream\<close> and \<open>out_stream\<close> give the character
  stream each adapter stands for; the lemmas show that both adapters refine a plain
  FIFO character stream and that the output adapter is the line splitter.
\<close>

subsection \<open>Input adapter\<close>

record inbuf =
  currentLine :: string
  gnext :: nat

text \<open>A freshly constructed \<open>std::streambuf\<close> has an empty get area.\<close>

definition inbuf_init :: inbuf where
  "inbuf_init = \<lparr>currentLine = [], gnext = 0\<rparr>"

definition underflow :: "inbuf \<Rightarrow> line list \<Rightarrow> (int_type \<times> inbuf \<times> line list) option" where
  "underflow b q =
     (case q of
        [] \<Rightarrow> None
      | l # q' \<Rightarrow>
          (let cl = l @ [NL]
           in Some (to_int_type (cl ! 0), b\<lparr>currentLine := cl, gnext := 0\<rparr>, q')))"

text \<open>\<open>std::streambuf::uflow\<close>: \<open>underflow\<close>, then take the character at
  \<open>gptr()\<close> and advance past it.\<close>

definition uflow :: "inbuf \<Rightarrow> line list \<Rightarrow> (int_type \<times> inbuf \<times> line list) option" where
  "uflow b q =
     (case underflow b q of
        None \<Rightarrow> None
      | Some (c, b', q') \<Rightarrow>
          if c = eof then Some (eof, b', q')
          else Some (c, b'\<lparr>gnext := Suc (gnext b')\<rparr>, q'))"

definition sbumpc :: "inbuf \<Rightarrow> line list \<Rightarrow> (int_type \<times> inbuf \<times> line list) option" where
  "sbumpc b q =
     (if gnext b < length (currentLine b)
      then Some (to_int_type (currentLine b ! gnext b), b\<lparr>gnext := Suc (gnext b)\<rparr>, q)
      else uflow b q)"

text \<open>The characters the worker can still read: the rest of the get area, then every
  queued line with its newline.\<close>

definition in_stream :: "inbuf \<Rightarrow> line list \<Rightarrow> string" where
  "in_stream b q = drop (gnext b) (currentLine b) @ terminated q"

lemma in_stream_underflow_case:
  "\<not> gnext b < length (currentLine b) \<Longrightarrow> in_stream b q = terminated q"
  by (simp add: in_stream_def)

lemma underflow_None_iff: "underflow b q = None \<longleftrightarrow> q = []"
  by (simp add: underflow_def Let_def split: list.splits)

lemma underflow_Nil: "underflow b [] = None"
  by (simp add: underflow_def)

lemma underflow_Cons:
  "underflow b (l # q) =
     Some (to_int_type ((l @ [NL]) ! 0), b\<lparr>currentLine := l @ [NL], gnext := 0\<rparr>, q)"
  by (simp add: underflow_def Let_def)

lemma uflow_drained: "\<not> gnext b < length (currentLine b) \<Longrightarrow> uflow b q = sbumpc b q"
  by (simp add: sbumpc_def)

lemma uflow_None_iff: "uflow b q = None \<longleftrightarrow> q = []"
  by (cases q) (auto simp: uflow_def underflow_Cons underflow_Nil)

text \<open>One \<open>sbumpc\<close> pops exactly the first character of the stream, and it waits
  exactly when the stream is empty.\<close>

lemma sbumpc_Some_stream:
  assumes "sbumpc b q = Some (c, b', q')"
  shows "\<exists>x. c = to_int_type x \<and> in_stream b q = x # in_stream b' q'"
proof (cases "gnext b < length (currentLine b)")
  case True
  with assms show ?thesis
    by (auto simp: sbumpc_def uflow_def in_stream_def Cons_nth_drop_Suc)
next
  case False
  then obtain l q0 where q: "q = l # q0"
    using assms by (cases q) (auto simp: sbumpc_def uflow_def underflow_Nil)
  have "(l @ [NL]) ! 0 # drop (Suc 0) (l @ [NL]) = l @ [NL]"
    by (cases l) simp_all
  with False assms q show ?thesis
    by (auto simp: sbumpc_def uflow_def underflow_Cons in_stream_def)
qed

lemma sbumpc_None_iff: "sbumpc b q = None \<longleftrightarrow> in_stream b q = []"
proof (cases "gnext b < length (currentLine b)")
  case True
  then show ?thesis by (simp add: sbumpc_def uflow_def in_stream_def)
next
  case False
  then show ?thesis
    by (cases q) (auto simp: sbumpc_def uflow_def underflow_Cons underflow_Nil in_stream_def)
qed

lemma sbumpc_progress:
  assumes "in_stream b q = x # xs"
  shows "\<exists>b' q'. sbumpc b q = Some (to_int_type x, b', q') \<and> in_stream b' q' = xs"
proof -
  from assms obtain r where r: "sbumpc b q = Some r"
    using sbumpc_None_iff [of b q] by (cases "sbumpc b q") auto
  obtain c b' q' where rc: "r = (c, b', q')" by (cases r) auto
  with r obtain y where "c = to_int_type y" "in_stream b q = y # in_stream b' q'"
    using sbumpc_Some_stream by blast
  with assms r rc show ?thesis by auto
qed

lemma sbumpc_measure:
  "sbumpc b q = Some (c, b', q') \<Longrightarrow> length (in_stream b' q') < length (in_stream b q)"
  by (drule sbumpc_Some_stream) auto

text \<open>\<open>std::getline(std::cin, cmd)\<close>: extract characters until a newline (taken and
  dropped) or end of file. It waits (\<open>None\<close>) when the stream runs dry first.\<close>

function getline :: "inbuf \<Rightarrow> line list \<Rightarrow> string \<Rightarrow> (line \<times> inbuf \<times> line list) option" where
  "getline b q acc =
     (case sbumpc b q of
        None \<Rightarrow> None
      | Some (c, b', q') \<Rightarrow>
          if c = eof then Some (acc, b', q')
          else if char_of c = NL then Some (acc, b', q')
          else getline b' q' (acc @ [char_of c]))"
  by pat_completeness auto
termination
  by (relation "measure (\<lambda>(b, q, acc). length (in_stream b q))")
     (auto dest: sbumpc_measure)

declare getline.simps [simp del]

text \<open>Reading a line that is at the front of the stream.\<close>

lemma getline_stream:
  assumes "no_nl l" and "in_stream b q = l @ NL # rest"
  shows "\<exists>b' q'. getline b q acc = Some (acc @ l, b', q') \<and> in_stream b' q' = rest"
  using assms
proof (induction l arbitrary: b q acc)
  case Nil
  then obtain b' q' where "sbumpc b q = Some (to_int_type NL, b', q')" "in_stream b' q' = rest"
    using sbumpc_progress [of b q NL rest] by auto
  then show ?case by (simp add: getline.simps [of b q acc])
next
  case (Cons x l)
  then obtain b' q' where s: "sbumpc b q = Some (to_int_type x, b', q')"
      and rest: "in_stream b' q' = l @ NL # rest" and "x \<noteq> NL"
    using sbumpc_progress [of b q x "l @ NL # rest"] by auto
  moreover from Cons.prems have "no_nl l" by simp
  ultimately obtain b'' q'' where
    "getline b' q' (acc @ [x]) = Some (acc @ [x] @ l, b'', q'')" "in_stream b'' q'' = rest"
    using Cons.IH [of b' q' "acc @ [x]"] by auto
  with s \<open>x \<noteq> NL\<close> show ?case
    by (simp add: getline.simps [of b q acc])
qed

text \<open>The worker's line loop: \<open>n\<close> successive calls of \<open>getline\<close>.\<close>

fun getlines :: "nat \<Rightarrow> inbuf \<Rightarrow> line list \<Rightarrow> (line list \<times> inbuf \<times> line list) option" where
  "getlines 0 b q = Some ([], b, q)"
| "getlines (Suc n) b q =
     (case getline b q [] of
        None \<Rightarrow> None
      | Some (l, b', q') \<Rightarrow>
          (case getlines n b' q' of
             None \<Rightarrow> None
           | Some (ls, b'', q'') \<Rightarrow> Some (l # ls, b'', q'')))"

lemma getlines_stream:
  assumes "list_all no_nl ls" and "in_stream b q = terminated ls @ rest"
  shows "\<exists>b' q'. getlines (length ls) b q = Some (ls, b', q') \<and> in_stream b' q' = rest"
  using assms
proof (induction ls arbitrary: b q)
  case Nil
  then show ?case by simp
next
  case (Cons l ls)
  then obtain b' q' where g: "getline b q [] = Some (l, b', q')"
      and s: "in_stream b' q' = terminated ls @ rest"
    using getline_stream [of l b q "terminated ls @ rest" "[]"] by auto
  from Cons.prems s obtain b'' q'' where
    "getlines (length ls) b' q' = Some (ls, b'', q'')" "in_stream b'' q'' = rest"
    using Cons.IH [of b' q'] by auto
  with g show ?case by simp
qed

subsection \<open>Output adapter\<close>

record outbuf =
  lineBuffer :: string

definition outbuf_init :: outbuf where
  "outbuf_init = \<lparr>lineBuffer = []\<rparr>"

definition overflow :: "int_type \<Rightarrow> outbuf \<Rightarrow> line list \<Rightarrow> int_type \<times> outbuf \<times> line list" where
  "overflow c b q =
     (if c \<noteq> eof then
        (if c = 10 then (c, b\<lparr>lineBuffer := []\<rparr>, q @ [lineBuffer b])
         else (c, b\<lparr>lineBuffer := lineBuffer b @ [char_of c]\<rparr>, q))
      else (c, b, q))"

text \<open>\<open>sputc\<close> with no put area: every character goes to \<open>overflow\<close>.\<close>

definition sputc :: "char \<Rightarrow> outbuf \<Rightarrow> line list \<Rightarrow> int_type \<times> outbuf \<times> line list" where
  "sputc c b q = overflow (to_int_type c) b q"

text \<open>The worker writing a string to \<open>std::cout\<close>, one \<open>sputc\<close> per character.\<close>

fun write_string :: "string \<Rightarrow> outbuf \<Rightarrow> line list \<Rightarrow> outbuf \<times> line list" where
  "write_string [] b q = (b, q)"
| "write_string (c # cs) b q = (case sputc c b q of (_, b', q') \<Rightarrow> write_string cs b' q')"

text \<open>Everything the worker has written so far, as the adapter holds it.\<close>

definition out_stream :: "outbuf \<Rightarrow> line list \<Rightarrow> string" where
  "out_stream b q = terminated q @ lineBuffer b"

lemma sputc_NL: "sputc NL b q = (10, b\<lparr>lineBuffer := []\<rparr>, q @ [lineBuffer b])"
  by (simp add: sputc_def overflow_def to_int_type_NL_iff)

lemma sputc_other:
  "c \<noteq> NL \<Longrightarrow> sputc c b q = (to_int_type c, b\<lparr>lineBuffer := lineBuffer b @ [c]\<rparr>, q)"
  by (simp add: sputc_def overflow_def to_int_type_NL_iff)

lemma sputc_stream:
  assumes "sputc c b q = (r, b', q')"
  shows "r = to_int_type c \<and> out_stream b' q' = out_stream b q @ [c] \<and> (\<exists>ls. q' = q @ ls)"
proof (cases "c = NL")
  case True
  with assms show ?thesis by (auto simp: sputc_NL out_stream_def to_int_type_def)
next
  case False
  with assms show ?thesis by (auto simp: sputc_other out_stream_def)
qed

lemma write_string_split:
  "write_string s b q =
     (b\<lparr>lineBuffer := snd (split_lines (lineBuffer b) s)\<rparr>, q @ fst (split_lines (lineBuffer b) s))"
proof (induction s arbitrary: b q)
  case Nil
  then show ?case by simp
next
  case (Cons c s)
  show ?case
  proof (cases "c = NL")
    case True
    then show ?thesis by (simp add: sputc_NL Cons.IH split: prod.splits)
  next
    case False
    then show ?thesis by (simp add: sputc_other Cons.IH)
  qed
qed

end
