(* ===== verification/Android_Log.thy ===== *)
theory Android_Log
  imports Main
begin

text \<open>
  Android logging as bridge.cpp (lines 16-18) and stockfish_stub.cpp (lines 12-13)
  use it: \<open>LOGI\<close> and \<open>LOGE\<close> expand to \<open>__android_log_print\<close> with a priority,
  the tag \<open>MindGambit/Stockfish\<close> and a constant message (no format arguments, so
  the message is written as it is). The system log is the list of entries written
  so far, oldest first; the program only ever appends to it and never reads it.
\<close>

datatype android_LogPriority = ANDROID_LOG_INFO | ANDROID_LOG_ERROR

type_synonym log_entry = "android_LogPriority \<times> string \<times> string"

definition TAG :: string where
  "TAG = ''MindGambit/Stockfish''"

definition LOGI :: "string \<Rightarrow> log_entry" where
  "LOGI msg = (ANDROID_LOG_INFO, TAG, msg)"

definition LOGE :: "string \<Rightarrow> log_entry" where
  "LOGE msg = (ANDROID_LOG_ERROR, TAG, msg)"

text \<open>An entry's priority, and the entries of a log at one priority.\<close>

definition log_prio :: "log_entry \<Rightarrow> android_LogPriority" where
  "log_prio e = fst e"

definition errors :: "log_entry list \<Rightarrow> log_entry list" where
  "errors lg = filter (\<lambda>e. log_prio e = ANDROID_LOG_ERROR) lg"

lemma LOGI_prio [simp]: "log_prio (LOGI m) = ANDROID_LOG_INFO"
  by (simp add: LOGI_def log_prio_def)

lemma LOGE_prio [simp]: "log_prio (LOGE m) = ANDROID_LOG_ERROR"
  by (simp add: LOGE_def log_prio_def)

lemma errors_append [simp]: "errors (xs @ ys) = errors xs @ errors ys"
  by (simp add: errors_def)

lemma errors_LOGI [simp]: "errors (map LOGI ms) = []"
  by (simp add: errors_def)

end
