(* ===== verification/Worker.thy ===== *)
theory Worker
  imports Bridge_Prelude Android_Log
begin

text \<open>
  The worker collaborator, seen from the bridge: a deterministic loop that at each point
  either reads one character from \<open>std::cin\<close>, writes one character to
  \<open>std::cout\<close>, writes an entry to the system log with \<open>LOGI\<close>, or returns from
  \<open>Stockfish::loop\<close>. An engine is its state after \<open>Stockfish::init()\<close>, the
  messages \<open>init()\<close> logs, and its step function; the bridge's worker thread
  (bridge.cpp lines 95-98) runs \<open>init\<close> and then the loop over this interface.
  Two engines are defined: the stub that the repository links
  (src/app/src/main/jni/stockfish/stockfish_stub.cpp), whose \<open>init\<close> and \<open>loop\<close>
  only log and return, and a small line-echoing engine that leaves its loop on the
  line \<open>quit\<close>, the test double the protocol's scenarios are stated with.
\<close>

datatype 'w wact =
    WRead "char \<Rightarrow> 'w"
  | WWrite char 'w
  | WLog string 'w
  | WExit

record 'w engine =
  eng_init :: 'w
  eng_init_log :: "string list"
  eng_step :: "'w \<Rightarrow> 'w wact"

text \<open>The stub: \<open>Stockfish::init()\<close> logs one message and returns;
  \<open>Stockfish::loop("")\<close> logs one message and returns. The messages are UTF-8 byte
  strings (the dash is U+2014, three bytes).\<close>

datatype stub_pc = StubLoopEntry | StubLoopLogged

definition stub_init_msg :: string where
  "stub_init_msg =
     ''Stockfish stub: init() called '' @ [CHR 0xE2, CHR 0x80, CHR 0x94] @ '' Stockfish sources not present''"

definition stub_loop_msg :: string where
  "stub_loop_msg =
     ''Stockfish stub: loop() called '' @ [CHR 0xE2, CHR 0x80, CHR 0x94] @ '' Stockfish sources not present''"

fun stub_step :: "stub_pc \<Rightarrow> stub_pc wact" where
  "stub_step StubLoopEntry = WLog stub_loop_msg StubLoopLogged"
| "stub_step StubLoopLogged = WExit"

definition stockfish_stub :: "stub_pc engine" where
  "stockfish_stub = \<lparr>eng_init = StubLoopEntry, eng_init_log = [stub_init_msg], eng_step = stub_step\<rparr>"

text \<open>The echo engine: reads a line; on \<open>quit\<close> it leaves its loop; otherwise it
  answers \<open>pong\<close> to \<open>ping\<close> and echoes any other line, newline-terminated.\<close>

datatype echo_st = EReading string | EWriting string | EQuit

definition echo_reply :: "line \<Rightarrow> line" where
  "echo_reply l = (if l = ''ping'' then ''pong'' else l)"

definition echo_read :: "string \<Rightarrow> char \<Rightarrow> echo_st" where
  "echo_read acc c =
     (if c = NL then (if acc = ''quit'' then EQuit else EWriting (echo_reply acc @ [NL]))
      else EReading (acc @ [c]))"

fun echo_step :: "echo_st \<Rightarrow> echo_st wact" where
  "echo_step (EReading acc) = WRead (echo_read acc)"
| "echo_step (EWriting []) = WRead (echo_read [])"
| "echo_step (EWriting (c # cs)) = WWrite c (if cs = [] then EReading [] else EWriting cs)"
| "echo_step EQuit = WExit"

definition echo_engine :: "echo_st engine" where
  "echo_engine = \<lparr>eng_init = EReading [], eng_init_log = [], eng_step = echo_step\<rparr>"

end
