(* ===== verification/Bridge_Facade.thy ===== *)
theory Bridge_Facade
  imports Stream_Buffers Worker
begin

text \<open>
  The process-wide state of bridge.cpp and its four JNI entry points. The static
  variables of lines 28-37 and 73-74 are the record \<open>bridge\<close>; the
  \<open>InputBuffer\<close> and \<open>OutputBuffer\<close> objects that \<open>new\<close> allocates live in two
  heaps (\<open>inHeap\<close>, \<open>outHeap\<close>, indexed by address), so that the pointers
  \<open>inputBuf\<close>/\<open>outputBuf\<close> and the buffers installed under \<open>std::cin\<close> and
  \<open>std::cout\<close> (\<open>cinBuf\<close>, \<open>coutBuf\<close>; \<open>None\<close> is the console buffer) can alias or
  diverge as the code lets them. Each detached worker thread is an entry of
  \<open>threads\<close>: started, inside \<open>Stockfish::loop\<close> with its engine state, blocked
  inside the \<open>underflow\<close> of one \<open>InputBuffer\<close> (the wait of lines 44-45: the thread
  is committed to that object, whatever \<open>std::cin\<close> holds by the time it wakes), or
  returned.
  \<open>nativeInit\<close> takes the point at which it throws, if it does, as a parameter
  (\<open>new\<close> may throw \<open>std::bad_alloc\<close>, the \<open>std::thread\<close> constructor
  \<open>std::system_error\<close>); the effects before the throw remain, as in C++.
  The \<open>LOGI\<close>/\<open>LOGE\<close> calls of the entry points and of the engine append to
  \<open>syslog\<close>, the system log.
  \<open>nativeReadLine_result\<close> is the body of \<open>nativeReadLine\<close> after its timed
  wait; the wait itself, which lets other threads run, is a pair of steps of the
  concurrent model in Bridge_System. \<open>thread_step\<close> is one step of a worker thread:
  \<open>Stockfish::init()\<close>, or one read, write or return of the engine's loop, the reads
  and writes going through whatever buffers \<open>std::cin\<close>/\<open>std::cout\<close> hold at that
  moment.
\<close>

datatype 'w tstate = TStart | TLoop 'w | TReadWait 'w nat | TDone

record 'w bridge =
  inputQueue :: "line list"
  outputQueue :: "line list"
  engineRunning :: bool
  inHeap :: "inbuf list"
  outHeap :: "outbuf list"
  inputBuf :: "nat option"
  outputBuf :: "nat option"
  cinBuf :: "nat option"
  coutBuf :: "nat option"
  threads :: "'w tstate list"
  syslog :: "log_entry list"

definition bridge0 :: "'w bridge" where
  "bridge0 = \<lparr>inputQueue = [], outputQueue = [], engineRunning = False,
     inHeap = [], outHeap = [], inputBuf = None, outputBuf = None,
     cinBuf = None, coutBuf = None, threads = [], syslog = []\<rparr>"

datatype init_fault = NoFault | AllocInputFails | AllocOutputFails | ThreadFails

definition new_InputBuffer :: "('w, 'x) bridge_scheme \<Rightarrow> nat \<times> ('w, 'x) bridge_scheme" where
  "new_InputBuffer s = (length (inHeap s), s\<lparr>inHeap := inHeap s @ [inbuf_init]\<rparr>)"

definition new_OutputBuffer :: "('w, 'x) bridge_scheme \<Rightarrow> nat \<times> ('w, 'x) bridge_scheme" where
  "new_OutputBuffer s = (length (outHeap s), s\<lparr>outHeap := outHeap s @ [outbuf_init]\<rparr>)"

text \<open>The \<open>try\<close> block of \<open>nativeInit\<close>: \<open>Inl\<close> is a throw, with the state at
  the throw; \<open>Inr\<close> a normal end.\<close>

definition init_body :: "init_fault \<Rightarrow> ('w, 'x) bridge_scheme \<Rightarrow> ('w, 'x) bridge_scheme + ('w, 'x) bridge_scheme" where
  "init_body f s =
     (if f = AllocInputFails then Inl s else
      let (pi, s1) = new_InputBuffer s;
          s2 = s1\<lparr>inputBuf := Some pi\<rparr>
      in if f = AllocOutputFails then Inl s2 else
      let (po, s3) = new_OutputBuffer s2;
          s4 = s3\<lparr>outputBuf := Some po\<rparr>;
          s5 = s4\<lparr>cinBuf := inputBuf s4\<rparr>;
          s6 = s5\<lparr>coutBuf := outputBuf s5\<rparr>;
          s7 = s6\<lparr>engineRunning := True\<rparr>
      in if f = ThreadFails then Inl s7 else Inr (s7\<lparr>threads := threads s7 @ [TStart]\<rparr>))"

definition nativeInit :: "init_fault \<Rightarrow> ('w, 'x) bridge_scheme \<Rightarrow> bool \<times> ('w, 'x) bridge_scheme" where
  "nativeInit f s =
     (case init_body f s of
        Inl s' \<Rightarrow> (False, s'\<lparr>syslog := syslog s' @ [LOGE ''Failed to initialize Stockfish'']\<rparr>)
      | Inr s' \<Rightarrow> (True, s'\<lparr>syslog := syslog s' @ [LOGI ''Stockfish engine initialized'']\<rparr>))"

text \<open>\<open>cmd\<close> is the buffer \<open>GetStringUTFChars\<close> returns; \<open>std::string(cmd)\<close>
  copies it up to its NUL terminator.\<close>

definition nativeSendCommand :: "string \<Rightarrow> ('w, 'x) bridge_scheme \<Rightarrow> ('w, 'x) bridge_scheme" where
  "nativeSendCommand cmd s = s\<lparr>inputQueue := inputQueue s @ [cstr cmd]\<rparr>"

text \<open>After the wait: \<open>received\<close> is the value of \<open>wait_for\<close>. The returned
  \<open>jstring\<close> is \<open>NewStringUTF(line.c_str())\<close>, the line up to its first NUL.\<close>

definition nativeReadLine_result :: "bool \<Rightarrow> ('w, 'x) bridge_scheme \<Rightarrow> line option \<times> ('w, 'x) bridge_scheme" where
  "nativeReadLine_result received s =
     (if \<not> received then (None, s)
      else (case outputQueue s of
              [] \<Rightarrow> (None, s)
            | l # q \<Rightarrow> (Some (cstr l), s\<lparr>outputQueue := q\<rparr>)))"

definition nativeDestroy :: "('w, 'x) bridge_scheme \<Rightarrow> ('w, 'x) bridge_scheme" where
  "nativeDestroy s =
     s\<lparr>engineRunning := False, inputQueue := inputQueue s @ [''quit''],
       syslog := syslog s @ [LOGI ''Stockfish engine destroyed'']\<rparr>"

subsection \<open>Worker threads\<close>

datatype tio = TNone | TIn char | TOut char

definition thread_step :: "'w engine \<Rightarrow> nat \<Rightarrow> ('w, 'x) bridge_scheme \<Rightarrow> (tio \<times> ('w, 'x) bridge_scheme) option" where
  "thread_step E i s =
     (if i < length (threads s) then
        (case threads s ! i of
           TStart \<Rightarrow>
             Some (TNone, s\<lparr>threads := (threads s)[i := TLoop (eng_init E)],
                            syslog := syslog s @ map LOGI (eng_init_log E)\<rparr>)
         | TDone \<Rightarrow> None
         | TReadWait w p \<Rightarrow>
             (case eng_step E w of
                WRead k \<Rightarrow>
                  (case uflow (inHeap s ! p) (inputQueue s) of
                     None \<Rightarrow> None
                   | Some (c, b', q') \<Rightarrow>
                       Some (TIn (char_of c), s\<lparr>inHeap := (inHeap s)[p := b'], inputQueue := q',
                               threads := (threads s)[i := TLoop (k (char_of c))]\<rparr>))
              | _ \<Rightarrow> None)
         | TLoop w \<Rightarrow>
             (case eng_step E w of
                WExit \<Rightarrow> Some (TNone, s\<lparr>threads := (threads s)[i := TDone]\<rparr>)
              | WLog m w' \<Rightarrow>
                  Some (TNone, s\<lparr>threads := (threads s)[i := TLoop w'], syslog := syslog s @ [LOGI m]\<rparr>)
              | WRead k \<Rightarrow>
                  (case cinBuf s of
                     None \<Rightarrow> None
                   | Some p \<Rightarrow>
                       (case sbumpc (inHeap s ! p) (inputQueue s) of
                          None \<Rightarrow> Some (TNone, s\<lparr>threads := (threads s)[i := TReadWait w p]\<rparr>)
                        | Some (c, b', q') \<Rightarrow>
                            Some (TIn (char_of c), s\<lparr>inHeap := (inHeap s)[p := b'], inputQueue := q',
                                    threads := (threads s)[i := TLoop (k (char_of c))]\<rparr>)))
              | WWrite c w' \<Rightarrow>
                  (case coutBuf s of
                     None \<Rightarrow> None
                   | Some p \<Rightarrow>
                       (case sputc c (outHeap s ! p) (outputQueue s) of
                          (_, b', q') \<Rightarrow>
                            Some (TOut c, s\<lparr>outHeap := (outHeap s)[p := b'], outputQueue := q',
                                    threads := (threads s)[i := TLoop w']\<rparr>)))))
      else None)"

subsection \<open>Well-formed heaps\<close>

text \<open>Every pointer the bridge holds or has installed points at an allocated object.\<close>

definition wf_bridge :: "('w, 'x) bridge_scheme \<Rightarrow> bool" where
  "wf_bridge s \<longleftrightarrow>
     pred_option (\<lambda>p. p < length (inHeap s)) (inputBuf s) \<and>
     pred_option (\<lambda>p. p < length (inHeap s)) (cinBuf s) \<and>
     pred_option (\<lambda>p. p < length (outHeap s)) (outputBuf s) \<and>
     pred_option (\<lambda>p. p < length (outHeap s)) (coutBuf s)"

lemma wf_bridge0: "wf_bridge bridge0"
  by (simp add: wf_bridge_def bridge0_def)

lemma init_body_cases:
  "init_body f s =
     (case f of
        AllocInputFails \<Rightarrow> Inl s
      | AllocOutputFails \<Rightarrow>
          Inl (s\<lparr>inHeap := inHeap s @ [inbuf_init], inputBuf := Some (length (inHeap s))\<rparr>)
      | ThreadFails \<Rightarrow>
          Inl (s\<lparr>inHeap := inHeap s @ [inbuf_init], inputBuf := Some (length (inHeap s)),
                 outHeap := outHeap s @ [outbuf_init], outputBuf := Some (length (outHeap s)),
                 cinBuf := Some (length (inHeap s)), coutBuf := Some (length (outHeap s)),
                 engineRunning := True\<rparr>)
      | NoFault \<Rightarrow>
          Inr (s\<lparr>inHeap := inHeap s @ [inbuf_init], inputBuf := Some (length (inHeap s)),
                 outHeap := outHeap s @ [outbuf_init], outputBuf := Some (length (outHeap s)),
                 cinBuf := Some (length (inHeap s)), coutBuf := Some (length (outHeap s)),
                 engineRunning := True, threads := threads s @ [TStart]\<rparr>))"
  by (cases f) (simp_all add: init_body_def new_InputBuffer_def new_OutputBuffer_def)

lemma nativeInit_wf: "wf_bridge s \<Longrightarrow> wf_bridge (snd (nativeInit f s))"
  by (cases f) (auto simp: nativeInit_def init_body_cases wf_bridge_def elim: option.pred_mono_strong)

lemma nativeSendCommand_wf: "wf_bridge s \<Longrightarrow> wf_bridge (nativeSendCommand cmd s)"
  by (simp add: nativeSendCommand_def wf_bridge_def)

lemma nativeReadLine_result_wf: "wf_bridge s \<Longrightarrow> wf_bridge (snd (nativeReadLine_result r s))"
  by (simp add: nativeReadLine_result_def wf_bridge_def split: list.splits)

lemma nativeDestroy_wf: "wf_bridge s \<Longrightarrow> wf_bridge (nativeDestroy s)"
  by (simp add: nativeDestroy_def wf_bridge_def)

lemma thread_step_wf:
  "wf_bridge s \<Longrightarrow> thread_step E i s = Some (io, s') \<Longrightarrow> wf_bridge s'"
  by (auto simp: thread_step_def wf_bridge_def
           split: if_splits tstate.splits wact.splits option.splits prod.splits)

text \<open>What one worker step does, by the character it moves: a character comes either
  through \<open>sbumpc\<close> on the buffer under \<open>std::cin\<close>, or, for a worker that was
  blocked, from the \<open>underflow\<close> of the buffer it blocked in.\<close>

lemma thread_step_io:
  assumes "thread_step E i s = Some (io, s')"
  shows "(io = TNone \<and> (\<exists>ts lg. s' = s\<lparr>threads := ts, syslog := lg\<rparr>)) \<or>
    (\<exists>p c' b' q' ts. io = TIn (char_of c') \<and>
        s' = s\<lparr>inHeap := (inHeap s)[p := b'], inputQueue := q', threads := ts\<rparr> \<and>
        (cinBuf s = Some p \<and> sbumpc (inHeap s ! p) (inputQueue s) = Some (c', b', q') \<or>
         (\<exists>w. threads s ! i = TReadWait w p) \<and> uflow (inHeap s ! p) (inputQueue s) = Some (c', b', q'))) \<or>
    (\<exists>c p r b' q' ts. io = TOut c \<and> coutBuf s = Some p \<and>
        sputc c (outHeap s ! p) (outputQueue s) = (r, b', q') \<and>
        s' = s\<lparr>outHeap := (outHeap s)[p := b'], outputQueue := q', threads := ts\<rparr>)"
proof (cases "io = TNone")
  case True
  with assms have "s' = s\<lparr>threads := threads s', syslog := syslog s'\<rparr>"
    by (auto simp: thread_step_def split: if_splits tstate.splits wact.splits option.splits prod.splits)
  then have "\<exists>ts lg. s' = s\<lparr>threads := ts, syslog := lg\<rparr>" by (intro exI)
  with True show ?thesis by blast
next
  case False
  from assms have i: "i < length (threads s)" by (simp add: thread_step_def split: if_splits)
  show ?thesis
  proof (cases "threads s ! i")
    case (TReadWait w p)
    with assms i obtain k c' b' q' where "uflow (inHeap s ! p) (inputQueue s) = Some (c', b', q')"
      and "io = TIn (char_of c')"
      and "s' = s\<lparr>inHeap := (inHeap s)[p := b'], inputQueue := q',
                    threads := (threads s)[i := TLoop (k (char_of c'))]\<rparr>"
      by (auto simp: thread_step_def split: wact.splits option.splits)
    with TReadWait show ?thesis by blast
  next
    case (TLoop w)
    show ?thesis
    proof (cases "\<exists>k p r. eng_step E w = WRead k \<and> cinBuf s = Some p \<and>
                          sbumpc (inHeap s ! p) (inputQueue s) = Some r")
      case True
      then obtain k p c' b' q' where k: "eng_step E w = WRead k" and p: "cinBuf s = Some p"
        and r: "sbumpc (inHeap s ! p) (inputQueue s) = Some (c', b', q')" by auto
      with TLoop assms i have "io = TIn (char_of c')"
        and "s' = s\<lparr>inHeap := (inHeap s)[p := b'], inputQueue := q',
                      threads := (threads s)[i := TLoop (k (char_of c'))]\<rparr>"
        by (simp_all add: thread_step_def)
      with p r show ?thesis by blast
    next
      case False
      with TLoop assms i \<open>io \<noteq> TNone\<close> show ?thesis
        by (auto simp: thread_step_def split: wact.splits option.splits prod.splits)
    qed
  qed (use assms i False in \<open>auto simp: thread_step_def\<close>)
qed

subsection \<open>The facade's lifecycle\<close>

text \<open>The four entry points as one step function over the process state, with the
  read taken at the moment its wait ends.\<close>

datatype fop = FInit init_fault | FSend string | FRead | FDestroy

definition facade_op :: "fop \<Rightarrow> ('w, 'x) bridge_scheme \<Rightarrow> ('w, 'x) bridge_scheme" where
  "facade_op op s =
     (case op of
        FInit f \<Rightarrow> snd (nativeInit f s)
      | FSend cmd \<Rightarrow> nativeSendCommand cmd s
      | FRead \<Rightarrow> snd (nativeReadLine_result (outputQueue s \<noteq> []) s)
      | FDestroy \<Rightarrow> nativeDestroy s)"

text \<open>The spec's state machine of a bridge instance: \<open>Uninitialized\<close>, \<open>Running\<close>
  after a successful init, \<open>ShutdownRequested\<close> after destroy; \<open>None\<close> where the
  spec says nothing (a second init, a destroy or a send before init).\<close>

datatype phase = Uninitialized | Running | ShutdownRequested

fun lifecycle_spec :: "phase \<Rightarrow> fop \<Rightarrow> phase option" where
  "lifecycle_spec Uninitialized (FInit f) = Some (if f = NoFault then Running else Uninitialized)"
| "lifecycle_spec Running (FSend cmd) = Some Running"
| "lifecycle_spec Running FRead = Some Running"
| "lifecycle_spec Running FDestroy = Some ShutdownRequested"
| "lifecycle_spec ShutdownRequested (FSend cmd) = Some ShutdownRequested"
| "lifecycle_spec ShutdownRequested FRead = Some ShutdownRequested"
| "lifecycle_spec _ _ = None"

text \<open>The phase the process state is in: a worker thread was launched, and the
  running flag tells whether destroy has been requested since.\<close>

definition phase_of :: "('w, 'x) bridge_scheme \<Rightarrow> phase" where
  "phase_of s =
     (if threads s = [] then Uninitialized
      else if engineRunning s then Running else ShutdownRequested)"

end
