(* ===== verification/Bridge_System.thy ===== *)
theory Bridge_System
  imports Bridge_Facade
begin

text \<open>
  The bridge as a concurrent system. Any number of caller threads (Java threads
  calling the JNI entry points, numbered by \<open>nat\<close>) and the detached worker threads
  run interleaved; each step is one atomic section of bridge.cpp: a whole
  \<open>nativeInit\<close>, \<open>nativeSendCommand\<close> or \<open>nativeDestroy\<close> (their queue pushes
  happen under the queue's mutex, the rest touches no state another thread reads
  in between), one read or write of a worker, and the two halves of
  \<open>nativeReadLine\<close>: entering \<open>outputCv.wait_for\<close> (which fixes the deadline
  \<open>now + 5000\<close> ms) and leaving it, either woken with the queue non-empty or at the
  deadline with the queue still empty (\<open>wait_for\<close> then returns the predicate, so a
  line that arrives before the timeout is taken). \<open>EvTick\<close> lets one millisecond of
  the steady clock pass. The record \<open>sys\<close> extends the process state with the
  clock, the callers' states, the values \<open>nativeReadLine\<close> returned and four
  history variables that no code reads: the lines pushed on the input queue, the
  characters the workers read and wrote, and the lines the callers dequeued.
\<close>

datatype cstate = CIdle | CWaiting nat

record 'w sys = "'w bridge" +
  now :: nat
  callers :: "nat \<Rightarrow> cstate"
  results :: "(nat \<times> line option) list"
  sent :: "line list"
  consumed :: string
  written :: string
  delivered :: "line list"

definition sys0 :: "'w sys" where
  "sys0 = \<lparr>inputQueue = [], outputQueue = [], engineRunning = False,
     inHeap = [], outHeap = [], inputBuf = None, outputBuf = None,
     cinBuf = None, coutBuf = None, threads = [], syslog = [],
     now = 0, callers = (\<lambda>_. CIdle), results = [], sent = [], consumed = [], written = [],
     delivered = []\<rparr>"

definition read_timeout_ms :: nat where
  "read_timeout_ms = 5000"

datatype ev =
    EvInit init_fault
  | EvSend string
  | EvReadBegin nat
  | EvReadEnd nat
  | EvDestroy
  | EvTick
  | EvThread nat

fun is_init :: "ev \<Rightarrow> bool" where
  "is_init (EvInit f) = True"
| "is_init _ = False"

definition note_io :: "tio \<Rightarrow> 'w sys \<Rightarrow> 'w sys" where
  "note_io io s =
     (case io of
        TNone \<Rightarrow> s
      | TIn c \<Rightarrow> s\<lparr>consumed := consumed s @ [c]\<rparr>
      | TOut c \<Rightarrow> s\<lparr>written := written s @ [c]\<rparr>)"

inductive sys_step :: "'w engine \<Rightarrow> 'w sys \<Rightarrow> ev \<Rightarrow> 'w sys \<Rightarrow> bool" for E where
  init: "sys_step E s (EvInit f) (snd (nativeInit f s))"
| send: "sys_step E s (EvSend cmd) ((nativeSendCommand cmd s)\<lparr>sent := sent s @ [cstr cmd]\<rparr>)"
| read_begin: "callers s i = CIdle \<Longrightarrow>
    sys_step E s (EvReadBegin i) (s\<lparr>callers := (callers s)(i := CWaiting (now s + read_timeout_ms))\<rparr>)"
| read_wake: "callers s i = CWaiting d \<Longrightarrow> outputQueue s = l # q \<Longrightarrow>
    nativeReadLine_result True s = (r, s') \<Longrightarrow>
    sys_step E s (EvReadEnd i)
      (s'\<lparr>callers := (callers s)(i := CIdle), results := results s @ [(i, r)],
          delivered := delivered s @ [l]\<rparr>)"
| read_timeout: "callers s i = CWaiting d \<Longrightarrow> d \<le> now s \<Longrightarrow> outputQueue s = [] \<Longrightarrow>
    nativeReadLine_result False s = (r, s') \<Longrightarrow>
    sys_step E s (EvReadEnd i) (s'\<lparr>callers := (callers s)(i := CIdle), results := results s @ [(i, r)]\<rparr>)"
| tick: "sys_step E s EvTick (s\<lparr>now := Suc (now s)\<rparr>)"
| destroy: "sys_step E s EvDestroy ((nativeDestroy s)\<lparr>sent := sent s @ [''quit'']\<rparr>)"
| thread: "thread_step E i s = Some (io, s') \<Longrightarrow> sys_step E s (EvThread i) (note_io io s')"

inductive runs :: "'w engine \<Rightarrow> 'w sys \<Rightarrow> ev list \<Rightarrow> 'w sys \<Rightarrow> bool" for E where
  runs_nil: "runs E s [] s"
| runs_cons: "sys_step E s e t \<Longrightarrow> runs E t es u \<Longrightarrow> runs E s (e # es) u"

inductive_cases step_initE: "sys_step E s (EvInit f) t"
inductive_cases step_sendE: "sys_step E s (EvSend cmd) t"
inductive_cases step_read_beginE: "sys_step E s (EvReadBegin i) t"
inductive_cases step_read_endE: "sys_step E s (EvReadEnd i) t"
inductive_cases step_destroyE: "sys_step E s EvDestroy t"
inductive_cases step_tickE: "sys_step E s EvTick t"
inductive_cases step_threadE: "sys_step E s (EvThread i) t"
inductive_cases runs_consE: "runs E s (e # es) u"

lemma runs_append: "runs E s es t \<Longrightarrow> runs E t fs u \<Longrightarrow> runs E s (es @ fs) u"
  by (induction rule: runs.induct) (auto intro: runs.intros)

lemma runs_snoc: "runs E s es t \<Longrightarrow> sys_step E t e u \<Longrightarrow> runs E s (es @ [e]) u"
  by (auto intro: runs_append runs.intros)

lemma runs_appendE:
  "runs E s (es @ fs) u \<Longrightarrow> \<exists>t. runs E s es t \<and> runs E t fs u"
proof (induction es arbitrary: s)
  case Nil
  then show ?case by (auto intro: runs.intros)
next
  case (Cons e es)
  from Cons.prems obtain t where st: "sys_step E s e t" and r: "runs E t (es @ fs) u"
    by (auto elim: runs_consE)
  from r obtain v where "runs E t es v" "runs E v fs u"
    using Cons.IH by blast
  with st show ?case by (blast intro: runs.runs_cons)
qed

subsection \<open>The character streams behind std::cin and std::cout\<close>

text \<open>The characters a worker can still read through \<open>std::cin\<close>, and everything
  the workers wrote through \<open>std::cout\<close> that no caller has dequeued yet.\<close>

definition cin_stream :: "('w, 'x) bridge_scheme \<Rightarrow> string" where
  "cin_stream s =
     (case cinBuf s of
        None \<Rightarrow> terminated (inputQueue s)
      | Some p \<Rightarrow> in_stream (inHeap s ! p) (inputQueue s))"

definition cout_stream :: "('w, 'x) bridge_scheme \<Rightarrow> string" where
  "cout_stream s =
     (case coutBuf s of
        None \<Rightarrow> terminated (outputQueue s)
      | Some p \<Rightarrow> out_stream (outHeap s ! p) (outputQueue s))"

text \<open>No buffer installed under \<open>std::cin\<close>/\<open>std::cout\<close> holds a part of a line.\<close>

definition drained :: "('w, 'x) bridge_scheme \<Rightarrow> bool" where
  "drained s \<longleftrightarrow>
     pred_option (\<lambda>p. length (currentLine (inHeap s ! p)) \<le> gnext (inHeap s ! p)) (cinBuf s) \<and>
     pred_option (\<lambda>p. lineBuffer (outHeap s ! p) = []) (coutBuf s)"

definition out_lines_ok :: "'w sys \<Rightarrow> bool" where
  "out_lines_ok s \<longleftrightarrow>
     list_all no_nl (outputQueue s) \<and> list_all no_nl (delivered s) \<and>
     pred_option (\<lambda>p. no_nl (lineBuffer (outHeap s ! p))) (coutBuf s)"

text \<open>A worker blocked in \<open>underflow\<close> waits on the buffer under \<open>std::cin\<close>, whose
  get area it has used up; and there is at most one worker, none before a buffer was
  installed.\<close>

fun waits_in :: "nat option \<Rightarrow> inbuf list \<Rightarrow> 'w tstate \<Rightarrow> bool" where
  "waits_in cb h (TReadWait w p) \<longleftrightarrow> cb = Some p \<and> length (currentLine (h ! p)) \<le> gnext (h ! p)"
| "waits_in cb h _ \<longleftrightarrow> True"

definition waits_ok :: "('w, 'x) bridge_scheme \<Rightarrow> bool" where
  "waits_ok s \<longleftrightarrow>
     length (threads s) \<le> (case cinBuf s of None \<Rightarrow> 0 | Some _ \<Rightarrow> 1) \<and>
     list_all (waits_in (cinBuf s) (inHeap s)) (threads s)"

definition sys_inv :: "'w sys \<Rightarrow> bool" where
  "sys_inv s \<longleftrightarrow>
     wf_bridge s \<and> waits_ok s \<and>
     consumed s @ cin_stream s = terminated (sent s) \<and>
     terminated (delivered s) @ cout_stream s = written s \<and>
     out_lines_ok s \<and>
     List.map_filter snd (results s) = map cstr (delivered s)"

lemma sys_inv_sys0: "sys_inv sys0"
  by (simp add: sys_inv_def sys0_def wf_bridge_def cin_stream_def cout_stream_def
      out_lines_ok_def waits_ok_def)

subsection \<open>How each kind of step moves the streams\<close>

text \<open>The streams are a function of the buffers and queues alone.\<close>

lemma streams_frame [simp]:
  "cin_stream (s\<lparr>now := x1\<rparr>) = cin_stream s"
  "cout_stream (s\<lparr>now := x2\<rparr>) = cout_stream s"
  "cin_stream (s\<lparr>callers := x3\<rparr>) = cin_stream s"
  "cout_stream (s\<lparr>callers := x4\<rparr>) = cout_stream s"
  "cin_stream (s\<lparr>results := x5\<rparr>) = cin_stream s"
  "cout_stream (s\<lparr>results := x6\<rparr>) = cout_stream s"
  "cin_stream (s\<lparr>sent := x7\<rparr>) = cin_stream s"
  "cout_stream (s\<lparr>sent := x8\<rparr>) = cout_stream s"
  "cin_stream (s\<lparr>consumed := x9\<rparr>) = cin_stream s"
  "cout_stream (s\<lparr>consumed := x10\<rparr>) = cout_stream s"
  "cin_stream (s\<lparr>written := x11\<rparr>) = cin_stream s"
  "cout_stream (s\<lparr>written := x12\<rparr>) = cout_stream s"
  "cin_stream (s\<lparr>delivered := x13\<rparr>) = cin_stream s"
  "cout_stream (s\<lparr>delivered := x14\<rparr>) = cout_stream s"
  "cin_stream (s\<lparr>threads := x15\<rparr>) = cin_stream s"
  "cout_stream (s\<lparr>threads := x16\<rparr>) = cout_stream s"
  "cin_stream (s\<lparr>engineRunning := x17\<rparr>) = cin_stream s"
  "cout_stream (s\<lparr>engineRunning := x18\<rparr>) = cout_stream s"
  "cin_stream (s\<lparr>syslog := x19\<rparr>) = cin_stream s"
  "cout_stream (s\<lparr>syslog := x20\<rparr>) = cout_stream s"
  by (simp_all add: cin_stream_def cout_stream_def split: option.splits)

lemma cin_stream_push:
  "cin_stream (s\<lparr>inputQueue := inputQueue s @ ls\<rparr>) = cin_stream s @ terminated ls"
  by (simp add: cin_stream_def in_stream_def split: option.splits)

lemma cout_stream_pop:
  "outputQueue s = l # q \<Longrightarrow> cout_stream s = l @ NL # cout_stream (s\<lparr>outputQueue := q\<rparr>)"
  by (simp add: cout_stream_def out_stream_def split: option.splits)

lemma drained_streams:
  "drained s \<Longrightarrow> cin_stream s = terminated (inputQueue s) \<and> cout_stream s = terminated (outputQueue s)"
  by (auto simp: drained_def cin_stream_def cout_stream_def in_stream_def out_stream_def
           split: option.splits)

lemma cin_stream_read:
  assumes "cinBuf s = Some p" "p < length (inHeap s)"
    and "sbumpc (inHeap s ! p) (inputQueue s) = Some (c', b', q')"
  shows "cin_stream s =
           char_of c' # cin_stream (s\<lparr>inHeap := (inHeap s)[p := b'], inputQueue := q', threads := ts\<rparr>)"
proof -
  from assms(3) obtain x where "c' = to_int_type x"
      and "in_stream (inHeap s ! p) (inputQueue s) = x # in_stream b' q'"
    using sbumpc_Some_stream by blast
  with assms(1,2) show ?thesis by (simp add: cin_stream_def)
qed

lemma cout_stream_write:
  assumes "coutBuf s = Some p" "p < length (outHeap s)"
    and "sputc c (outHeap s ! p) (outputQueue s) = (r, b', q')"
  shows "cout_stream (s\<lparr>outHeap := (outHeap s)[p := b'], outputQueue := q', threads := ts\<rparr>) =
           cout_stream s @ [c]"
  using assms sputc_stream [OF assms(3)] by (simp add: cout_stream_def)

lemma sputc_no_nl:
  assumes "sputc c b q = (r, b', q')" "no_nl (lineBuffer b)"
  shows "no_nl (lineBuffer b') \<and> (\<exists>ls. q' = q @ ls \<and> list_all no_nl ls)"
proof (cases "c = NL")
  case True
  with assms show ?thesis by (auto simp: sputc_NL)
next
  case False
  with assms show ?thesis by (auto simp: sputc_other)
qed

subsection \<open>Every step keeps the invariant\<close>

lemma drained_unset: "cinBuf s = None \<Longrightarrow> coutBuf s = None \<Longrightarrow> drained s"
  by (simp add: drained_def)

lemma syslog_irrelevant [simp]: "sys_inv (s\<lparr>syslog := l\<rparr>) = sys_inv s"
  by (simp add: sys_inv_def wf_bridge_def cin_stream_def cout_stream_def out_lines_ok_def waits_ok_def
      split: option.splits)

lemma init_keeps_inv:
  assumes inv: "sys_inv s" and ci: "cinBuf s = None" and co: "coutBuf s = None"
  shows "sys_inv (snd (nativeInit f s))"
proof -
  have dr: "cin_stream s = terminated (inputQueue s) \<and> cout_stream s = terminated (outputQueue s)"
    using drained_streams [OF drained_unset [OF ci co]] .
  have th: "threads s = []" using inv ci by (simp add: sys_inv_def waits_ok_def)
  show ?thesis
  proof (cases f)
    case NoFault
    with inv dr th show ?thesis
      by (simp add: nativeInit_def init_body_cases sys_inv_def wf_bridge_def cin_stream_def waits_ok_def
          cout_stream_def in_stream_def out_stream_def inbuf_init_def outbuf_init_def out_lines_ok_def)
  next
    case AllocInputFails
    with inv show ?thesis by (simp add: nativeInit_def init_body_cases)
  next
    case AllocOutputFails
    with inv th ci show ?thesis
      by (auto simp: nativeInit_def init_body_cases sys_inv_def wf_bridge_def cin_stream_def waits_ok_def
          nth_append out_lines_ok_def cout_stream_def elim: option.pred_mono_strong split: option.splits)
  next
    case ThreadFails
    with inv dr th show ?thesis
      by (simp add: nativeInit_def init_body_cases sys_inv_def wf_bridge_def cin_stream_def waits_ok_def
          cout_stream_def in_stream_def out_stream_def inbuf_init_def outbuf_init_def out_lines_ok_def)
  qed
qed

text \<open>Where the workers wait depends on the threads, \<open>std::cin\<close> and the input heap only.\<close>

lemma waits_ok_frame [simp]:
  "waits_ok (s\<lparr>inputQueue := x1\<rparr>) = waits_ok s"
  "waits_ok (s\<lparr>outputQueue := x2\<rparr>) = waits_ok s"
  "waits_ok (s\<lparr>outHeap := x3\<rparr>) = waits_ok s"
  "waits_ok (s\<lparr>engineRunning := x4\<rparr>) = waits_ok s"
  "waits_ok (s\<lparr>syslog := x12\<rparr>) = waits_ok s"
  "waits_ok (t\<lparr>now := x5\<rparr>) = waits_ok t"
  "waits_ok (t\<lparr>callers := x6\<rparr>) = waits_ok t"
  "waits_ok (t\<lparr>results := x7\<rparr>) = waits_ok t"
  "waits_ok (t\<lparr>sent := x8\<rparr>) = waits_ok t"
  "waits_ok (t\<lparr>consumed := x9\<rparr>) = waits_ok t"
  "waits_ok (t\<lparr>written := x10\<rparr>) = waits_ok t"
  "waits_ok (t\<lparr>delivered := x11\<rparr>) = waits_ok t"
  by (simp_all add: waits_ok_def)

lemma push_keeps_inv:
  "sys_inv s \<Longrightarrow> sys_inv (s\<lparr>inputQueue := inputQueue s @ [l], sent := sent s @ [l]\<rparr>)"
  using cin_stream_push [of s "[l]"]
  by (simp add: sys_inv_def wf_bridge_def cout_stream_def out_lines_ok_def cin_stream_def split: option.splits)

lemma callers_irrelevant [simp]: "sys_inv (s\<lparr>callers := c\<rparr>) = sys_inv s"
  by (simp add: sys_inv_def wf_bridge_def cin_stream_def cout_stream_def out_lines_ok_def split: option.splits)

lemma running_irrelevant [simp]: "sys_inv (s\<lparr>engineRunning := b\<rparr>) = sys_inv s"
  by (simp add: sys_inv_def wf_bridge_def out_lines_ok_def)

lemma now_irrelevant [simp]: "sys_inv (s\<lparr>now := n\<rparr>) = sys_inv s"
  by (simp add: sys_inv_def wf_bridge_def cin_stream_def cout_stream_def out_lines_ok_def split: option.splits)

lemma wake_keeps_inv:
  assumes inv: "sys_inv s" and q: "outputQueue s = l # q"
  shows "sys_inv (s\<lparr>outputQueue := q, callers := c, results := results s @ [(i, Some (cstr l))],
                     delivered := delivered s @ [l]\<rparr>)"
proof -
  have "cout_stream s = l @ NL # cout_stream (s\<lparr>outputQueue := q\<rparr>)"
    using q by (rule cout_stream_pop)
  with inv q show ?thesis
    by (simp add: sys_inv_def wf_bridge_def cin_stream_def cout_stream_def out_lines_ok_def split: option.splits)
qed

lemma timeout_keeps_inv:
  "sys_inv s \<Longrightarrow> sys_inv (s\<lparr>callers := c, results := results s @ [(i, None)]\<rparr>)"
  by (simp add: sys_inv_def wf_bridge_def cin_stream_def cout_stream_def out_lines_ok_def split: option.splits)

lemma thread_step_waits:
  assumes wo: "waits_ok s" and st: "thread_step E i s = Some (io, s')"
  shows "waits_ok s'"
proof -
  from st have i: "i < length (threads s)" by (simp add: thread_step_def split: if_splits)
  with wo obtain p where cb: "cinBuf s = Some p" and one: "length (threads s) = 1"
    by (auto simp: waits_ok_def split: option.splits)
  then obtain th where th: "threads s = [th]" and i0: "i = 0" using i
    by (cases "threads s") auto
  from st wo cb show ?thesis unfolding th i0
    by (auto simp: thread_step_def waits_ok_def th sbumpc_def
        split: tstate.splits wact.splits option.splits prod.splits if_splits)
qed

text \<open>A blocked worker that wakes reads as \<open>sbumpc\<close> on the buffer under \<open>std::cin\<close>
  would.\<close>

lemma waiting_read_cin:
  assumes "waits_ok s" and "i < length (threads s)" and "threads s ! i = TReadWait w p"
    and "uflow (inHeap s ! p) (inputQueue s) = Some r"
  shows "cinBuf s = Some p \<and> sbumpc (inHeap s ! p) (inputQueue s) = Some r"
proof -
  from assms(1-3) have "cinBuf s = Some p" "\<not> gnext (inHeap s ! p) < length (currentLine (inHeap s ! p))"
    by (auto simp: waits_ok_def list_all_length dest!: spec [of _ i])
  with assms(4) show ?thesis by (simp add: uflow_drained)
qed

text \<open>So with the invariant, every character a worker reads comes through \<open>sbumpc\<close>
  on the buffer under \<open>std::cin\<close>.\<close>

lemma thread_step_io_waits:
  assumes wo: "waits_ok s" and st: "thread_step E i s = Some (io, s')"
  shows "(io = TNone \<and> (\<exists>ts lg. s' = s\<lparr>threads := ts, syslog := lg\<rparr>)) \<or>
    (\<exists>p c' b' q' ts. io = TIn (char_of c') \<and> cinBuf s = Some p \<and>
        sbumpc (inHeap s ! p) (inputQueue s) = Some (c', b', q') \<and>
        s' = s\<lparr>inHeap := (inHeap s)[p := b'], inputQueue := q', threads := ts\<rparr>) \<or>
    (\<exists>c p r b' q' ts. io = TOut c \<and> coutBuf s = Some p \<and>
        sputc c (outHeap s ! p) (outputQueue s) = (r, b', q') \<and>
        s' = s\<lparr>outHeap := (outHeap s)[p := b'], outputQueue := q', threads := ts\<rparr>)"
proof -
  have i: "i < length (threads s)" using st by (simp add: thread_step_def split: if_splits)
  show ?thesis
    using thread_step_io [OF st] waiting_read_cin [OF wo i] by metis
qed

lemma thread_keeps_inv:
  assumes inv: "sys_inv s" and st: "thread_step E i s = Some (io, s')"
  shows "sys_inv (note_io io s')"
proof -
  have wo: "waits_ok s'" using inv thread_step_waits [OF _ st] by (simp add: sys_inv_def)
  from inv have "waits_ok s" by (simp add: sys_inv_def)
  from thread_step_io_waits [OF this st] show ?thesis
  proof (elim disjE exE conjE)
    fix ts lg
    assume "io = TNone" "s' = s\<lparr>threads := ts, syslog := lg\<rparr>"
    with inv wo show ?thesis
      by (simp add: note_io_def sys_inv_def wf_bridge_def cin_stream_def cout_stream_def
          out_lines_ok_def split: option.splits)
  next
    fix p c' b' q' ts
    assume io: "io = TIn (char_of c')" and cb: "cinBuf s = Some p"
      and sb: "sbumpc (inHeap s ! p) (inputQueue s) = Some (c', b', q')"
      and s': "s' = s\<lparr>inHeap := (inHeap s)[p := b'], inputQueue := q', threads := ts\<rparr>"
    from inv cb have p: "p < length (inHeap s)" by (simp add: sys_inv_def wf_bridge_def)
    have "cin_stream s = char_of c' # cin_stream s'"
      using cin_stream_read [OF cb p sb] s' by simp
    with inv wo io s' show ?thesis
      by (simp add: note_io_def sys_inv_def wf_bridge_def cout_stream_def out_lines_ok_def
          split: option.splits)
  next
    fix c p r b' q' ts
    assume io: "io = TOut c" and cb: "coutBuf s = Some p"
      and sp: "sputc c (outHeap s ! p) (outputQueue s) = (r, b', q')"
      and s': "s' = s\<lparr>outHeap := (outHeap s)[p := b'], outputQueue := q', threads := ts\<rparr>"
    from inv cb have p: "p < length (outHeap s)" and nl: "no_nl (lineBuffer (outHeap s ! p))"
      by (simp_all add: sys_inv_def wf_bridge_def out_lines_ok_def)
    have "cout_stream s' = cout_stream s @ [c]"
      using cout_stream_write [OF cb p sp] s' by simp
    moreover obtain ls where "no_nl (lineBuffer b')" "q' = outputQueue s @ ls" "list_all no_nl ls"
      using sputc_no_nl [OF sp nl] by blast
    ultimately show ?thesis using inv wo io s' cb p
      by (simp add: note_io_def sys_inv_def wf_bridge_def cin_stream_def out_lines_ok_def
          split: option.splits)
  qed
qed

lemma sys_step_keeps_inv:
  assumes "sys_step E s e t" and "sys_inv s" and "is_init e \<Longrightarrow> cinBuf s = None \<and> coutBuf s = None"
  shows "sys_inv t"
  using assms
proof (induction rule: sys_step.induct)
  case (init s f)
  then show ?case by (simp add: init_keeps_inv)
next
  case (send s cmd)
  then show ?case using push_keeps_inv [of s "cstr cmd"] by (simp add: nativeSendCommand_def)
next
  case (read_begin s i)
  then show ?case by simp
next
  case (read_wake s i d l q r s')
  then have "r = Some (cstr l)" "s' = s\<lparr>outputQueue := q\<rparr>"
    by (simp_all add: nativeReadLine_result_def)
  with read_wake show ?case by (simp add: wake_keeps_inv)
next
  case (read_timeout s i d r s')
  then have "r = None" "s' = s" by (simp_all add: nativeReadLine_result_def)
  with read_timeout show ?case by (simp add: timeout_keeps_inv)
next
  case (tick s)
  then show ?case by simp
next
  case (destroy s)
  then show ?case using cin_stream_push [of s "[''quit'']"]
    by (simp add: nativeDestroy_def sys_inv_def wf_bridge_def waits_ok_def cout_stream_def out_lines_ok_def
        cin_stream_def split: option.splits)
next
  case (thread i s io s')
  then show ?case by (simp add: thread_keeps_inv)
qed

text \<open>Only \<open>nativeInit\<close> installs buffers under \<open>std::cin\<close> and \<open>std::cout\<close>.\<close>

lemma sys_step_std_buffers:
  assumes "sys_step E s e t" and "\<not> is_init e"
  shows "cinBuf t = cinBuf s \<and> coutBuf t = coutBuf s"
  using assms
proof (induction rule: sys_step.induct)
  case (thread i s io s')
  then show ?case
    using thread_step_io [OF thread.hyps] by (auto simp: note_io_def split: tio.splits)
qed (simp_all add: nativeSendCommand_def nativeReadLine_result_def nativeDestroy_def split: if_splits list.splits)

lemma runs_keep_inv:
  assumes "runs E s es t" and "sys_inv s"
    and "list_all (\<lambda>e. \<not> is_init e) es \<or>
         (cinBuf s = None \<and> coutBuf s = None \<and> length (filter is_init es) \<le> 1)"
  shows "sys_inv t"
  using assms
proof (induction rule: runs.induct)
  case (runs_nil s)
  then show ?case by simp
next
  case (runs_cons s e t es u)
  show ?case
  proof (cases "is_init e")
    case True
    with runs_cons.prems(2) have "cinBuf s = None" "coutBuf s = None" "list_all (\<lambda>e. \<not> is_init e) es"
      by (auto simp: filter_empty_conv list_all_iff)
    with runs_cons show ?thesis by (blast intro: sys_step_keeps_inv)
  next
    case False
    with runs_cons.hyps(1) have "cinBuf t = cinBuf s" "coutBuf t = coutBuf s"
      by (auto dest: sys_step_std_buffers)
    with False runs_cons show ?thesis by (auto intro: sys_step_keeps_inv)
  qed
qed

lemma reachable_inv:
  "runs E sys0 es s \<Longrightarrow> length (filter is_init es) \<le> 1 \<Longrightarrow> sys_inv s"
proof -
  assume r: "runs E sys0 es s" and n: "length (filter is_init es) \<le> 1"
  have "cinBuf (sys0 :: 'w sys) = None" "coutBuf (sys0 :: 'w sys) = None"
    by (simp_all add: sys0_def)
  with r n sys_inv_sys0 show "sys_inv s" by (blast intro: runs_keep_inv)
qed

subsection \<open>An executable step function\<close>

text \<open>Given the event, the step is determined: \<open>exec_ev\<close> computes it, and \<open>None\<close>
  is an event that cannot happen now (a wait that has not ended, a blocked worker).\<close>

definition exec_ev :: "'w engine \<Rightarrow> 'w sys \<Rightarrow> ev \<Rightarrow> 'w sys option" where
  "exec_ev E s e =
     (case e of
        EvInit f \<Rightarrow> Some (snd (nativeInit f s))
      | EvSend cmd \<Rightarrow> Some ((nativeSendCommand cmd s)\<lparr>sent := sent s @ [cstr cmd]\<rparr>)
      | EvReadBegin i \<Rightarrow>
          (if callers s i = CIdle
           then Some (s\<lparr>callers := (callers s)(i := CWaiting (now s + read_timeout_ms))\<rparr>)
           else None)
      | EvReadEnd i \<Rightarrow>
          (case callers s i of
             CIdle \<Rightarrow> None
           | CWaiting d \<Rightarrow>
               (case outputQueue s of
                  l # q \<Rightarrow>
                    (case nativeReadLine_result True s of
                       (r, s') \<Rightarrow> Some (s'\<lparr>callers := (callers s)(i := CIdle),
                                       results := results s @ [(i, r)], delivered := delivered s @ [l]\<rparr>))
                | [] \<Rightarrow>
                    (if d \<le> now s then
                       (case nativeReadLine_result False s of
                          (r, s') \<Rightarrow> Some (s'\<lparr>callers := (callers s)(i := CIdle),
                                          results := results s @ [(i, r)]\<rparr>))
                     else None)))
      | EvDestroy \<Rightarrow> Some ((nativeDestroy s)\<lparr>sent := sent s @ [''quit'']\<rparr>)
      | EvTick \<Rightarrow> Some (s\<lparr>now := Suc (now s)\<rparr>)
      | EvThread i \<Rightarrow>
          (case thread_step E i s of
             None \<Rightarrow> None
           | Some (io, s') \<Rightarrow> Some (note_io io s')))"

fun exec_run :: "'w engine \<Rightarrow> 'w sys \<Rightarrow> ev list \<Rightarrow> 'w sys option" where
  "exec_run E s [] = Some s"
| "exec_run E s (e # es) = (case exec_ev E s e of None \<Rightarrow> None | Some t \<Rightarrow> exec_run E t es)"

lemma sys_step_exec_ev: "sys_step E s e t \<Longrightarrow> exec_ev E s e = Some t"
  by (induction rule: sys_step.induct) (auto simp: exec_ev_def)

lemma exec_ev_sys_step: "exec_ev E s e = Some t \<Longrightarrow> sys_step E s e t"
  by (auto simp: exec_ev_def intro: sys_step.intros
           split: ev.splits if_splits cstate.splits list.splits prod.splits option.splits)

lemma runs_exec_run: "runs E s es t \<longleftrightarrow> exec_run E s es = Some t"
proof
  show "runs E s es t \<Longrightarrow> exec_run E s es = Some t"
    by (induction rule: runs.induct) (simp_all add: sys_step_exec_ev)
next
  show "exec_run E s es = Some t \<Longrightarrow> runs E s es t"
  proof (induction es arbitrary: s)
    case Nil
    then show ?case by (simp add: runs.runs_nil)
  next
    case (Cons e es)
    then obtain u where "exec_ev E s e = Some u" "exec_run E u es = Some t"
      by (auto split: option.splits)
    with Cons.IH show ?case by (blast intro: runs.runs_cons exec_ev_sys_step)
  qed
qed

lemma runs_ticks: "runs E s (replicate n EvTick) (s\<lparr>now := now s + n\<rparr>)"
proof (induction n arbitrary: s)
  case 0
  then show ?case by (simp add: runs.runs_nil)
next
  case (Suc n)
  have "runs E (s\<lparr>now := Suc (now s)\<rparr>) (replicate n EvTick) (s\<lparr>now := now s + Suc n\<rparr>)"
    using Suc.IH [of "s\<lparr>now := Suc (now s)\<rparr>"] by simp
  then show ?case by (auto intro: runs.runs_cons sys_step.tick)
qed

subsection \<open>Facts for the timing and collaborator properties\<close>

text \<open>The characters written since the last newline, held by the buffer under
  \<open>std::cout\<close>.\<close>

definition pending_line :: "('w, 'x) bridge_scheme \<Rightarrow> string" where
  "pending_line s = (case coutBuf s of None \<Rightarrow> [] | Some p \<Rightarrow> lineBuffer (outHeap s ! p))"

lemma cout_stream_pending: "cout_stream s = terminated (outputQueue s) @ pending_line s"
  by (simp add: cout_stream_def pending_line_def out_stream_def split: option.splits)

lemma thread_step_callers:
  "thread_step E i s = Some (io, s') \<Longrightarrow> callers (note_io io s') = callers s \<and> now (note_io io s') = now s"
  using thread_step_io [of E i s io s'] by (auto simp: note_io_def split: tio.splits)

lemma step_keeps_waiting:
  assumes "sys_step E s e t" and "e \<noteq> EvReadEnd i" and "callers s i = CWaiting d"
  shows "callers t i = CWaiting d \<and> now s \<le> now t"
  using assms
proof (induction rule: sys_step.induct)
  case (init s f)
  then show ?case by (cases f) (simp_all add: nativeInit_def init_body_cases)
next
  case (thread j s io s')
  then show ?case using thread_step_callers [OF thread.hyps] by simp
qed (auto simp: nativeSendCommand_def nativeDestroy_def nativeReadLine_result_def split: if_splits list.splits)

lemma runs_keep_waiting:
  assumes "runs E s es t" and "EvReadEnd i \<notin> set es" and "callers s i = CWaiting d"
  shows "callers t i = CWaiting d \<and> now s \<le> now t"
  using assms
proof (induction rule: runs.induct)
  case (runs_nil s)
  then show ?case by simp
next
  case (runs_cons s e t es u)
  then have "e \<noteq> EvReadEnd i" by auto
  with runs_cons have "callers t i = CWaiting d \<and> now s \<le> now t"
    using step_keeps_waiting [of E s e t i d] by simp
  with runs_cons show ?case by fastforce
qed

text \<open>A caller leaving its wait with no line does so at or after its deadline.\<close>

lemma read_end_None:
  assumes "sys_step E s (EvReadEnd i) t" and "last (results t) = (i, None)"
  shows "\<exists>d. callers s i = CWaiting d \<and> d \<le> now s \<and> now t = now s"
  using assms
  by (auto elim!: step_read_endE simp: nativeReadLine_result_def)

text \<open>A caller waiting past its deadline can always leave its wait.\<close>

lemma read_end_enabled:
  assumes "callers s i = CWaiting d" and "d \<le> now s"
  shows "\<exists>t r. sys_step E s (EvReadEnd i) t \<and> callers t i = CIdle \<and> results t = results s @ [(i, r)]"
proof (cases "outputQueue s")
  case Nil
  have "nativeReadLine_result False s = (None, s)" by (simp add: nativeReadLine_result_def)
  with assms Nil have "sys_step E s (EvReadEnd i)
      (s\<lparr>callers := (callers s)(i := CIdle), results := results s @ [(i, None)]\<rparr>)"
    by (rule sys_step.read_timeout)
  then show ?thesis by fastforce
next
  case (Cons l q)
  have "nativeReadLine_result True s = (Some (cstr l), s\<lparr>outputQueue := q\<rparr>)"
    using Cons by (simp add: nativeReadLine_result_def)
  with assms(1) Cons have "sys_step E s (EvReadEnd i)
      (s\<lparr>outputQueue := q, callers := (callers s)(i := CIdle),
          results := results s @ [(i, Some (cstr l))], delivered := delivered s @ [l]\<rparr>)"
    by (rule sys_step.read_wake)
  then show ?thesis by fastforce
qed

text \<open>The stub never writes: every thread step of it is \<open>init\<close>, a log entry or a
  return.\<close>

lemma stub_step_no_io [simp]: "stub_step x \<noteq> WRead k" "stub_step x \<noteq> WWrite c w"
  by (cases x; simp)+

lemma stub_thread_step:
  assumes "thread_step stockfish_stub i s = Some (io, s')"
  shows "io = TNone \<and> (\<exists>ts lg. s' = s\<lparr>threads := ts, syslog := lg\<rparr>)"
proof -
  from assms have "io = TNone"
    by (auto simp: thread_step_def stockfish_stub_def split: if_splits tstate.splits wact.splits)
  with thread_step_io [OF assms] show ?thesis by auto
qed

lemma stub_step_silent:
  assumes "sys_step stockfish_stub s e t" and "outputQueue s = []" and "written s = []"
    and "\<forall>x\<in>set (results s). snd x = None"
  shows "outputQueue t = [] \<and> written t = [] \<and> (\<forall>x\<in>set (results t). snd x = None)"
  using assms
proof (induction rule: sys_step.induct)
  case (init s f)
  then show ?case by (cases f) (simp_all add: nativeInit_def init_body_cases)
next
  case (thread i s io s')
  then show ?case using stub_thread_step [OF thread.hyps] by (auto simp: note_io_def)
qed (auto simp: nativeSendCommand_def nativeDestroy_def nativeReadLine_result_def)

lemma stub_runs_silent:
  assumes "runs stockfish_stub s es t" and "outputQueue s = []" and "written s = []"
    and "\<forall>x\<in>set (results s). snd x = None"
  shows "outputQueue t = [] \<and> written t = [] \<and> (\<forall>x\<in>set (results t). snd x = None)"
  using assms
proof (induction rule: runs.induct)
  case (runs_nil s)
  then show ?case by simp
next
  case (runs_cons s e t es u)
  then show ?case using stub_step_silent [OF runs_cons.hyps(1)] by simp
qed

text \<open>The rewrite rules that evaluate a concrete run with \<open>exec_run\<close>.\<close>

lemmas exec_simps = exec_ev_def sys0_def nativeInit_def init_body_cases nativeSendCommand_def
  nativeDestroy_def thread_step_def sbumpc_def uflow_def underflow_def sputc_def overflow_def
  nativeReadLine_result_def note_io_def inbuf_init_def outbuf_init_def cstr_def to_int_type_NL_iff
  read_timeout_ms_def

lemma sys_step_wf: "sys_step E s e t \<Longrightarrow> wf_bridge s \<Longrightarrow> wf_bridge t"
proof (induction rule: sys_step.induct)
  case (init s f)
  then show ?case by (rule nativeInit_wf)
next
  case (thread i s io s')
  then have "wf_bridge s'" by (blast intro: thread_step_wf)
  then show ?case by (simp add: note_io_def wf_bridge_def split: tio.splits)
qed (simp_all add: wf_bridge_def nativeSendCommand_def nativeDestroy_def nativeReadLine_result_def
       split: if_splits list.splits)

lemma runs_wf: "runs E s es t \<Longrightarrow> wf_bridge s \<Longrightarrow> wf_bridge t"
  by (induction rule: runs.induct) (auto dest: sys_step_wf)

end
