(* ===== verification/Echo_Session.thy ===== *)
theory Echo_Session
  imports Bridge_System
begin

text \<open>
  Sessions of the bridge with the echo engine: from a state in which the worker waits
  for a line and nothing is pending in either direction, sending a command, letting
  the worker read it character by character and write its answer, and reading once
  returns the answer and brings the bridge back to such a state. The lemmas build the
  run step by step: the worker reading a string without newline, the worker writing a
  string, one full request/response cycle, then any list of them.
\<close>

definition echo_serving :: "echo_st sys \<Rightarrow> bool" where
  "echo_serving s \<longleftrightarrow>
     0 < length (threads s) \<and> threads s ! 0 = TLoop (EReading []) \<and>
     cinBuf s \<noteq> None \<and> coutBuf s \<noteq> None \<and> wf_bridge s \<and>
     cin_stream s = [] \<and> pending_line s = [] \<and> outputQueue s = [] \<and> callers s 0 = CIdle"

text \<open>The events of one request/response cycle for the command \<open>l\<close>.\<close>

definition serve_events :: "line \<Rightarrow> ev list" where
  "serve_events l =
     EvSend l # replicate (Suc (length l)) (EvThread 0) @
     replicate (Suc (length (echo_reply l))) (EvThread 0) @ [EvReadBegin 0, EvReadEnd 0]"

subsection \<open>The worker reading\<close>

lemma echo_read_step:
  assumes i: "i < length (threads s)" and th: "threads s ! i = TLoop (EReading acc)"
    and cb: "cinBuf s = Some p" and p: "p < length (inHeap s)" and st: "cin_stream s = c # rest"
  shows "\<exists>b' q'. in_stream b' q' = rest \<and>
           sys_step echo_engine s (EvThread i)
             (s\<lparr>inHeap := (inHeap s)[p := b'], inputQueue := q',
                 threads := (threads s)[i := TLoop (echo_read acc c)], consumed := consumed s @ [c]\<rparr>)"
proof -
  from st cb have "in_stream (inHeap s ! p) (inputQueue s) = c # rest" by (simp add: cin_stream_def)
  then obtain b' q' where sb: "sbumpc (inHeap s ! p) (inputQueue s) = Some (to_int_type c, b', q')"
      and r: "in_stream b' q' = rest"
    using sbumpc_progress by blast
  with i th cb have "thread_step echo_engine i s =
      Some (TIn c, s\<lparr>inHeap := (inHeap s)[p := b'], inputQueue := q',
                     threads := (threads s)[i := TLoop (echo_read acc c)]\<rparr>)"
    by (simp add: thread_step_def echo_engine_def)
  then have "sys_step echo_engine s (EvThread i)
      (note_io (TIn c) (s\<lparr>inHeap := (inHeap s)[p := b'], inputQueue := q',
                     threads := (threads s)[i := TLoop (echo_read acc c)]\<rparr>))"
    by (rule sys_step.thread)
  with r show ?thesis by (auto simp: note_io_def)
qed

lemma echo_reads:
  assumes "i < length (threads s)" and "threads s ! i = TLoop (EReading acc)"
    and "cinBuf s = Some p" and "p < length (inHeap s)"
    and "cin_stream s = cs @ rest" and "no_nl cs"
  shows "\<exists>H Q. length H = length (inHeap s) \<and> in_stream (H ! p) Q = rest \<and>
           (\<forall>j. j \<noteq> p \<longrightarrow> H ! j = inHeap s ! j) \<and>
           runs echo_engine s (replicate (length cs) (EvThread i))
             (s\<lparr>inHeap := H, inputQueue := Q, threads := (threads s)[i := TLoop (EReading (acc @ cs))],
                 consumed := consumed s @ cs\<rparr>)"
  using assms
proof (induction cs arbitrary: s acc)
  case Nil
  then have "in_stream (inHeap s ! p) (inputQueue s) = rest" by (simp add: cin_stream_def)
  moreover have "s\<lparr>inHeap := inHeap s, inputQueue := inputQueue s,
      threads := (threads s)[i := TLoop (EReading (acc @ []))], consumed := consumed s @ []\<rparr> = s"
  proof -
    have "(threads s)[i := TLoop (EReading acc)] = threads s"
      using Nil.prems(2) by (metis list_update_id)
    then show ?thesis by simp
  qed
  ultimately have "runs echo_engine s (replicate (length []) (EvThread i))
      (s\<lparr>inHeap := inHeap s, inputQueue := inputQueue s,
         threads := (threads s)[i := TLoop (EReading (acc @ []))], consumed := consumed s @ []\<rparr>)"
      "in_stream (inHeap s ! p) (inputQueue s) = rest"
    by (simp_all add: runs.runs_nil)
  then show ?case by blast
next
  case (Cons c cs)
  from Cons.prems(6) have c: "c \<noteq> NL" and cs: "no_nl cs" by simp_all
  from Cons.prems(5) have st: "cin_stream s = c # (cs @ rest)" by simp
  obtain b' q' where r1: "in_stream b' q' = cs @ rest" and step: "sys_step echo_engine s (EvThread i)
      (s\<lparr>inHeap := (inHeap s)[p := b'], inputQueue := q',
          threads := (threads s)[i := TLoop (echo_read acc c)], consumed := consumed s @ [c]\<rparr>)"
    using echo_read_step [OF Cons.prems(1-4) st] by blast
  let ?s1 = "s\<lparr>inHeap := (inHeap s)[p := b'], inputQueue := q',
      threads := (threads s)[i := TLoop (EReading (acc @ [c]))], consumed := consumed s @ [c]\<rparr>"
  have e: "echo_read acc c = EReading (acc @ [c])" using c by (simp add: echo_read_def)
  have h1: "i < length (threads ?s1)" "threads ?s1 ! i = TLoop (EReading (acc @ [c]))"
      "cinBuf ?s1 = Some p" "p < length (inHeap ?s1)" "cin_stream ?s1 = cs @ rest"
    using Cons.prems r1 by (simp_all add: cin_stream_def)
  obtain H Q where H: "length H = length (inHeap ?s1)" "in_stream (H ! p) Q = rest"
      "\<forall>j. j \<noteq> p \<longrightarrow> H ! j = inHeap ?s1 ! j"
      and r: "runs echo_engine ?s1 (replicate (length cs) (EvThread i))
        (?s1\<lparr>inHeap := H, inputQueue := Q,
              threads := (threads ?s1)[i := TLoop (EReading ((acc @ [c]) @ cs))],
              consumed := consumed ?s1 @ cs\<rparr>)"
    using Cons.IH [OF h1 cs] by blast
  from step e have st1: "sys_step echo_engine s (EvThread i) ?s1" by simp
  from st1 r have "runs echo_engine s (EvThread i # replicate (length cs) (EvThread i))
        (?s1\<lparr>inHeap := H, inputQueue := Q,
              threads := (threads ?s1)[i := TLoop (EReading ((acc @ [c]) @ cs))],
              consumed := consumed ?s1 @ cs\<rparr>)"
    by (rule runs.runs_cons)
  with H show ?case by auto
qed

subsection \<open>The worker writing\<close>

lemma echo_write_step:
  assumes i: "i < length (threads s)" and th: "threads s ! i = TLoop (EWriting (c # cs))"
    and cb: "coutBuf s = Some p" and sp: "sputc c (outHeap s ! p) (outputQueue s) = (r, b', q')"
  shows "sys_step echo_engine s (EvThread i)
           (s\<lparr>outHeap := (outHeap s)[p := b'], outputQueue := q',
               threads := (threads s)[i := TLoop (if cs = [] then EReading [] else EWriting cs)],
               written := written s @ [c]\<rparr>)"
proof -
  from i th cb sp have "thread_step echo_engine i s =
      Some (TOut c, s\<lparr>outHeap := (outHeap s)[p := b'], outputQueue := q',
               threads := (threads s)[i := TLoop (if cs = [] then EReading [] else EWriting cs)]\<rparr>)"
    by (simp add: thread_step_def echo_engine_def)
  then show ?thesis by (fastforce dest: sys_step.thread simp: note_io_def)
qed

lemma echo_writes:
  assumes "i < length (threads s)" and "threads s ! i = TLoop (EWriting w)" and "w \<noteq> []"
    and "coutBuf s = Some p" and "p < length (outHeap s)"
  shows "runs echo_engine s (replicate (length w) (EvThread i))
           (s\<lparr>outHeap := (outHeap s)[p := fst (write_string w (outHeap s ! p) (outputQueue s))],
               outputQueue := snd (write_string w (outHeap s ! p) (outputQueue s)),
               threads := (threads s)[i := TLoop (EReading [])], written := written s @ w\<rparr>)"
  using assms
proof (induction w arbitrary: s)
  case Nil
  then show ?case by simp
next
  case (Cons c cs)
  obtain r b' q' where sp: "sputc c (outHeap s ! p) (outputQueue s) = (r, b', q')"
    by (cases "sputc c (outHeap s ! p) (outputQueue s)") auto
  let ?s1 = "s\<lparr>outHeap := (outHeap s)[p := b'], outputQueue := q',
               threads := (threads s)[i := TLoop (if cs = [] then EReading [] else EWriting cs)],
               written := written s @ [c]\<rparr>"
  have st: "sys_step echo_engine s (EvThread i) ?s1"
    using echo_write_step [OF Cons.prems(1,2,4) sp] .
  show ?case
  proof (cases "cs = []")
    case True
    have "runs echo_engine s [EvThread i] ?s1" using st by (blast intro: runs.intros)
    with True sp show ?thesis by simp
  next
    case False
    have h: "i < length (threads ?s1)" "threads ?s1 ! i = TLoop (EWriting cs)"
        "coutBuf ?s1 = Some p" "p < length (outHeap ?s1)"
      using Cons.prems False by simp_all
    have r: "runs echo_engine ?s1 (replicate (length cs) (EvThread i))
        (?s1\<lparr>outHeap := (outHeap ?s1)[p := fst (write_string cs (outHeap ?s1 ! p) (outputQueue ?s1))],
             outputQueue := snd (write_string cs (outHeap ?s1 ! p) (outputQueue ?s1)),
             threads := (threads ?s1)[i := TLoop (EReading [])], written := written ?s1 @ cs\<rparr>)"
      using Cons.IH [OF h(1,2) False h(3,4)] .
    have "outHeap ?s1 ! p = b'" "outputQueue ?s1 = q'" using Cons.prems(5) by simp_all
    with runs.runs_cons [OF st r] sp show ?thesis by simp
  qed
qed

subsection \<open>One request and its answer\<close>

lemma serve_read_phase:
  assumes srv: "echo_serving s" and l: "no_nl l" "NUL \<notin> set l" "l \<noteq> ''quit''"
  shows "\<exists>t. runs echo_engine s (EvSend l # replicate (Suc (length l)) (EvThread 0)) t \<and>
           threads t = (threads s)[0 := TLoop (EWriting (echo_reply l @ [NL]))] \<and>
           cin_stream t = [] \<and> cinBuf t = cinBuf s \<and> coutBuf t = coutBuf s \<and>
           outHeap t = outHeap s \<and> outputQueue t = outputQueue s \<and> callers t = callers s \<and>
           results t = results s \<and> now t = now s \<and> wf_bridge t \<and> sent t = sent s @ [l]"
proof -
  from srv obtain p where cb: "cinBuf s = Some p" and p: "p < length (inHeap s)"
    by (auto simp: echo_serving_def wf_bridge_def)
  let ?s1 = "(nativeSendCommand l s)\<lparr>sent := sent s @ [cstr l]\<rparr>"
  have st1: "sys_step echo_engine s (EvSend l) ?s1" by (rule sys_step.send)
  have c1: "cin_stream ?s1 = l @ [NL] @ []"
    using srv cin_stream_push [of s "[l]"] l by (simp add: echo_serving_def nativeSendCommand_def)
  have h1: "0 < length (threads ?s1)" "threads ?s1 ! 0 = TLoop (EReading [])" "cinBuf ?s1 = Some p"
      "p < length (inHeap ?s1)"
    using srv cb p by (simp_all add: echo_serving_def nativeSendCommand_def)
  obtain H Q where H: "length H = length (inHeap ?s1)" "in_stream (H ! p) Q = [NL]"
      and r2: "runs echo_engine ?s1 (replicate (length l) (EvThread 0))
        (?s1\<lparr>inHeap := H, inputQueue := Q, threads := (threads ?s1)[0 := TLoop (EReading ([] @ l))],
               consumed := consumed ?s1 @ l\<rparr>)"
    using echo_reads [OF h1 c1 l(1)] by auto
  let ?s2 = "?s1\<lparr>inHeap := H, inputQueue := Q, threads := (threads ?s1)[0 := TLoop (EReading ([] @ l))],
               consumed := consumed ?s1 @ l\<rparr>"
  have h2: "0 < length (threads ?s2)" "threads ?s2 ! 0 = TLoop (EReading l)" "cinBuf ?s2 = Some p"
      "p < length (inHeap ?s2)" "cin_stream ?s2 = NL # []"
    using h1 H by (simp_all add: cin_stream_def)
  obtain b' q' where e3: "in_stream b' q' = []" and st3: "sys_step echo_engine ?s2 (EvThread 0)
      (?s2\<lparr>inHeap := (inHeap ?s2)[p := b'], inputQueue := q',
           threads := (threads ?s2)[0 := TLoop (echo_read l NL)], consumed := consumed ?s2 @ [NL]\<rparr>)"
    using echo_read_step [OF h2] by blast
  let ?t = "?s2\<lparr>inHeap := (inHeap ?s2)[p := b'], inputQueue := q',
           threads := (threads ?s2)[0 := TLoop (echo_read l NL)], consumed := consumed ?s2 @ [NL]\<rparr>"
  have "runs echo_engine s (EvSend l # replicate (length l) (EvThread 0) @ [EvThread 0]) ?t"
    using runs.runs_cons [OF st1 runs_snoc [OF r2 st3]] by simp
  then have r: "runs echo_engine s (EvSend l # replicate (Suc (length l)) (EvThread 0)) ?t"
    by (simp add: replicate_append_same [symmetric])
  have "wf_bridge s" using srv by (simp add: echo_serving_def)
  then have "wf_bridge ?t" using r by (rule runs_wf [rotated])
  moreover have "echo_read l NL = EWriting (echo_reply l @ [NL])" using l by (simp add: echo_read_def)
  moreover have "cin_stream ?t = []" using h2 e3 by (simp add: cin_stream_def)
  moreover have "cstr l = l" using l by simp
  ultimately show ?thesis using r by (auto simp: nativeSendCommand_def)
qed

lemma echo_reply_no_nl: "no_nl l \<Longrightarrow> no_nl (echo_reply l)"
  by (simp add: echo_reply_def no_nl_def)

lemma echo_reply_no_nul: "NUL \<notin> set l \<Longrightarrow> NUL \<notin> set (echo_reply l)"
  by (simp add: echo_reply_def)

lemma write_line_fresh:
  assumes "no_nl r" and "lineBuffer b = []"
  shows "write_string (r @ [NL]) b q = (b, q @ [r])"
proof -
  have "split_lines [] (terminated [r] @ []) = ([r], [])"
    using assms(1) by (intro split_lines_terminated) simp_all
  with assms(2) show ?thesis by (simp add: write_string_split)
qed

lemma serve_cycle:
  assumes srv: "echo_serving s" and l: "no_nl l" "NUL \<notin> set l" "l \<noteq> ''quit''"
  shows "\<exists>t. runs echo_engine s (serve_events l) t \<and> echo_serving t \<and>
           results t = results s @ [(0, Some (echo_reply l))] \<and> sent t = sent s @ [l]"
proof -
  define r where "r = echo_reply l"
  have rn: "no_nl r" "NUL \<notin> set r"
    using l by (simp_all add: r_def echo_reply_no_nl echo_reply_no_nul)
  obtain t1 where r1: "runs echo_engine s (EvSend l # replicate (Suc (length l)) (EvThread 0)) t1"
      and t1: "threads t1 = (threads s)[0 := TLoop (EWriting (r @ [NL]))]" "cin_stream t1 = []"
        "cinBuf t1 = cinBuf s" "coutBuf t1 = coutBuf s" "outHeap t1 = outHeap s"
        "outputQueue t1 = outputQueue s" "callers t1 = callers s" "results t1 = results s" "wf_bridge t1"
        "sent t1 = sent s @ [l]"
    using serve_read_phase [OF srv l] unfolding r_def by blast
  from srv obtain po where cb: "coutBuf s = Some po" and po: "po < length (outHeap s)"
      and lb: "lineBuffer (outHeap s ! po) = []" and oq: "outputQueue s = []"
    by (auto simp: echo_serving_def wf_bridge_def pending_line_def)
  have h: "0 < length (threads t1)" "threads t1 ! 0 = TLoop (EWriting (r @ [NL]))" "r @ [NL] \<noteq> []"
      "coutBuf t1 = Some po" "po < length (outHeap t1)"
    using srv t1 cb po by (simp_all add: echo_serving_def)
  have ws: "write_string (r @ [NL]) (outHeap t1 ! po) (outputQueue t1) = (outHeap s ! po, [r])"
    using write_line_fresh [OF rn(1) lb, of "[]"] t1 oq by simp
  define t2 where "t2 = t1\<lparr>outHeap := (outHeap t1)[po := outHeap s ! po], outputQueue := [r],
      threads := (threads t1)[0 := TLoop (EReading [])], written := written t1 @ r @ [NL]\<rparr>"
  have r2: "runs echo_engine t1 (replicate (Suc (length r)) (EvThread 0)) t2"
    using echo_writes [OF h] ws by (simp add: t2_def)
  define t3 where "t3 = t2\<lparr>callers := (callers t2)(0 := CWaiting (now t2 + read_timeout_ms))\<rparr>"
  have "callers t2 0 = CIdle" using srv t1 by (simp add: t2_def echo_serving_def)
  then have st3: "sys_step echo_engine t2 (EvReadBegin 0) t3"
    unfolding t3_def by (rule sys_step.read_begin)
  define t4 where "t4 = t3\<lparr>outputQueue := [], callers := (callers t3)(0 := CIdle),
      results := results t3 @ [(0, Some (cstr r))], delivered := delivered t3 @ [r]\<rparr>"
  have w3: "callers t3 0 = CWaiting (now t2 + read_timeout_ms)" "outputQueue t3 = r # []"
      "nativeReadLine_result True t3 = (Some (cstr r), t3\<lparr>outputQueue := []\<rparr>)"
    by (simp_all add: t3_def t2_def nativeReadLine_result_def)
  have st4: "sys_step echo_engine t3 (EvReadEnd 0) t4"
    unfolding t4_def using sys_step.read_wake [OF w3] by simp
  have run: "runs echo_engine s (serve_events l) t4"
  proof -
    have "runs echo_engine t2 [EvReadBegin 0, EvReadEnd 0] t4"
      using st3 st4 by (blast intro: runs.intros)
    with r1 r2 have "runs echo_engine s ((EvSend l # replicate (Suc (length l)) (EvThread 0)) @
        replicate (Suc (length r)) (EvThread 0) @ [EvReadBegin 0, EvReadEnd 0]) t4"
      by (blast intro: runs_append)
    then show ?thesis by (simp add: serve_events_def r_def)
  qed
  have "wf_bridge s" using srv by (simp add: echo_serving_def)
  then have "wf_bridge t4" using run by (rule runs_wf [rotated])
  moreover have "cin_stream t4 = []"
    using t1 by (simp add: t4_def t3_def t2_def cin_stream_def split: option.splits)
  moreover have "pending_line t4 = []"
    using t1 cb po lb by (simp add: t4_def t3_def t2_def pending_line_def)
  ultimately have "echo_serving t4"
    using srv t1 by (simp add: echo_serving_def t4_def t3_def t2_def)
  moreover have "results t4 = results s @ [(0, Some (echo_reply l))] \<and> sent t4 = sent s @ [l]"
    using t1 rn by (simp add: t4_def t3_def t2_def r_def)
  ultimately show ?thesis using run by blast
qed

subsection \<open>Sessions\<close>

lemma serve_all:
  assumes "echo_serving s" and "list_all (\<lambda>l. no_nl l \<and> NUL \<notin> set l \<and> l \<noteq> ''quit'') ls"
  shows "\<exists>t. runs echo_engine s (concat (map serve_events ls)) t \<and> echo_serving t \<and>
           results t = results s @ map (\<lambda>l. (0, Some (echo_reply l))) ls \<and> sent t = sent s @ ls"
  using assms
proof (induction ls arbitrary: s)
  case Nil
  then show ?case by (auto intro: runs.runs_nil)
next
  case (Cons l ls)
  then obtain t where r: "runs echo_engine s (serve_events l) t" and t: "echo_serving t"
      "results t = results s @ [(0, Some (echo_reply l))]" "sent t = sent s @ [l]"
    using serve_cycle by fastforce
  from Cons.IH [OF t(1)] Cons.prems(2) obtain u where
      "runs echo_engine t (concat (map serve_events ls)) u" "echo_serving u"
      "results u = results t @ map (\<lambda>l. (0, Some (echo_reply l))) ls" "sent u = sent t @ ls"
    by auto
  with r t show ?case by (auto intro: runs_append)
qed

lemma serving_after_start:
  "\<exists>s. runs echo_engine sys0 [EvInit NoFault, EvThread 0] s \<and> echo_serving s \<and>
       results s = [] \<and> sent s = []"
proof -
  have "\<exists>s. exec_run echo_engine sys0 [EvInit NoFault, EvThread 0] = Some s \<and> echo_serving s \<and>
       results s = [] \<and> sent s = []"
    by (simp add: exec_simps echo_engine_def echo_serving_def wf_bridge_def cin_stream_def
        in_stream_def pending_line_def)
  then show ?thesis by (auto simp: runs_exec_run)
qed

lemma serve_events_no_init: "filter is_init (concat (map serve_events ls)) = []"
  by (induction ls) (simp_all add: serve_events_def)

text \<open>Reading \<open>quit\<close>: four reads, the newline, and the return from the loop.\<close>

lemma echo_quits:
  assumes th: "0 < length (threads s)" "threads s ! 0 = TLoop (EReading [])"
    and cb: "cinBuf s = Some p" "p < length (inHeap s)" and cs: "cin_stream s = ''quit'' @ [NL]"
  shows "\<exists>t. runs echo_engine s (replicate 6 (EvThread 0)) t \<and> threads t ! 0 = TDone \<and>
           engineRunning t = engineRunning s \<and> consumed t = consumed s @ ''quit'' @ [NL]"
proof -
  obtain H Q where H: "length H = length (inHeap s)" "in_stream (H ! p) Q = [NL]"
    and r2: "runs echo_engine s (replicate (length ''quit'') (EvThread 0))
              (s\<lparr>inHeap := H, inputQueue := Q, threads := (threads s)[0 := TLoop (EReading ''quit'')],
                  consumed := consumed s @ ''quit''\<rparr>)"
  proof -
    have "no_nl ''quit''" by (simp add: no_nl_def)
    from echo_reads [OF th cb cs this] that show ?thesis
      by (simp only: append_Nil) blast
  qed
  define s2 where "s2 = s\<lparr>inHeap := H, inputQueue := Q, threads := (threads s)[0 := TLoop (EReading ''quit'')],
                  consumed := consumed s @ ''quit''\<rparr>"
  have s2: "cin_stream s2 = NL # []" "0 < length (threads s2)" "threads s2 ! 0 = TLoop (EReading ''quit'')"
      "cinBuf s2 = Some p" "p < length (inHeap s2)"
    using H th cb by (simp_all add: s2_def cin_stream_def)
  obtain b' q' where st3: "sys_step echo_engine s2 (EvThread 0)
      (s2\<lparr>inHeap := (inHeap s2)[p := b'], inputQueue := q',
          threads := (threads s2)[0 := TLoop (echo_read ''quit'' NL)], consumed := consumed s2 @ [NL]\<rparr>)"
    using echo_read_step [OF s2(2,3,4,5,1)] by blast
  define s3 where "s3 = s2\<lparr>inHeap := (inHeap s2)[p := b'], inputQueue := q',
          threads := (threads s2)[0 := TLoop (echo_read ''quit'' NL)], consumed := consumed s2 @ [NL]\<rparr>"
  have q3: "threads s3 ! 0 = TLoop EQuit" "0 < length (threads s3)"
    using s2 by (simp_all add: s3_def echo_read_def)
  define s4 where "s4 = s3\<lparr>threads := (threads s3)[0 := TDone]\<rparr>"
  have "thread_step echo_engine 0 s3 = Some (TNone, s4)"
    using q3 by (simp add: thread_step_def echo_engine_def s4_def)
  then have st4: "sys_step echo_engine s3 (EvThread 0) s4"
    using sys_step.thread [of echo_engine 0 s3 TNone s4] by (simp add: note_io_def)
  have "runs echo_engine s (replicate (length ''quit'') (EvThread 0) @ [EvThread 0, EvThread 0]) s4"
    using r2 st3 st4 unfolding s2_def [symmetric] s3_def [symmetric]
    by (blast intro: runs_append runs.intros)
  moreover have "replicate (length ''quit'') (EvThread 0) @ [EvThread 0, EvThread 0] = replicate 6 (EvThread 0)"
    by (simp add: numeral_eq_Suc)
  moreover have "threads s4 ! 0 = TDone" "engineRunning s4 = engineRunning s"
      "consumed s4 = consumed s @ ''quit'' @ [NL]"
    using q3 by (simp_all add: s4_def s3_def s2_def)
  ultimately show ?thesis by auto
qed

end
