(* ===== verification/Jni_Strings.thy ===== *)
theory Jni_Strings
  imports Bridge_Prelude "HOL-Library.Word"
begin

text \<open>
  The string conversions of the JNI calls bridge.cpp makes. A Java string is a
  sequence of 16-bit UTF-16 code units (\<open>jchar\<close>, a \<open>16 word\<close>).
  \<open>GetStringUTFChars\<close> (bridge.cpp line 113) returns it in the JNI's modified
  UTF-8, NUL-terminated: each unit on its own is one byte if it is in 1..0x7F, two
  bytes \<open>110xxxxx 10xxxxxx\<close> if it is 0 or in 0x80..0x7FF, three bytes
  \<open>1110xxxx 10xxxxxx 10xxxxxx\<close> otherwise (surrogates included, each on its
  own). \<open>NewStringUTF\<close> (line 139) reads a NUL-terminated buffer in that format
  back into a Java string; on bytes that are not modified UTF-8 the JNI
  specification defines no result, modelled as \<open>None\<close>. Both functions are
  defined here from the JNI specification, not from a particular virtual machine.
  The decoder accepts exactly the encoder's image, and the lemmas prove the round
  trip in both directions, that an encoding never holds a NUL byte, that it holds a
  newline byte exactly where the Java string holds U+000A, and its length bounds.
\<close>

type_synonym jchar = "16 word"
type_synonym jstring = "jchar list"

text \<open>A continuation byte \<open>10xxxxxx\<close>.\<close>

definition mutf8_cont :: "nat \<Rightarrow> bool" where
  "mutf8_cont y \<longleftrightarrow> 0x80 \<le> y \<and> y < 0xC0"

definition mutf8_char :: "jchar \<Rightarrow> string" where
  "mutf8_char u =
     (let n = unat u in
      if 0 < n \<and> n < 0x80 then [char_of n]
      else if n < 0x800 then [char_of (0xC0 + n div 0x40), char_of (0x80 + n mod 0x40)]
      else [char_of (0xE0 + n div 0x1000), char_of (0x80 + n div 0x40 mod 0x40),
            char_of (0x80 + n mod 0x40)])"

definition mutf8 :: "jstring \<Rightarrow> string" where
  "mutf8 js = concat (map mutf8_char js)"

text \<open>Decoding, with the byte values as naturals: a lead byte, then as many
  continuation bytes as it announces; a two-byte value must be 0 or at least 0x80,
  a three-byte value at least 0x800 (the encoder's own forms only).\<close>

fun mutf8_decode :: "string \<Rightarrow> jstring option" where
  "mutf8_decode [] = Some []"
| "mutf8_decode (a # cs) =
     (let x = of_char a :: nat in
      if 0 < x \<and> x < 0x80 then map_option (Cons (of_nat x)) (mutf8_decode cs)
      else if 0xC0 \<le> x \<and> x < 0xE0 then
        (case cs of
           b # cs' \<Rightarrow>
             (let y = of_char b; n = (x - 0xC0) * 0x40 + (y - 0x80) in
              if mutf8_cont y \<and> (n = 0 \<or> 0x80 \<le> n)
              then map_option (Cons (of_nat n)) (mutf8_decode cs') else None)
         | [] \<Rightarrow> None)
      else if 0xE0 \<le> x \<and> x < 0xF0 then
        (case cs of
           b # c # cs' \<Rightarrow>
             (let y = of_char b; z = of_char c;
                  n = (x - 0xE0) * 0x1000 + (y - 0x80) * 0x40 + (z - 0x80) in
              if mutf8_cont y \<and> mutf8_cont z \<and> 0x800 \<le> n
              then map_option (Cons (of_nat n)) (mutf8_decode cs') else None)
         | _ \<Rightarrow> None)
      else None)"

text \<open>\<open>const char* GetStringUTFChars(JNIEnv*, jstring, jboolean*)\<close>: the
  encoding and its NUL terminator.\<close>

definition GetStringUTFChars :: "jstring \<Rightarrow> string" where
  "GetStringUTFChars command = mutf8 command @ [NUL]"

text \<open>\<open>jstring NewStringUTF(JNIEnv*, const char* bytes)\<close>: the bytes up to the
  first NUL, decoded.\<close>

definition NewStringUTF :: "string \<Rightarrow> jstring option" where
  "NewStringUTF bytes = mutf8_decode (cstr bytes)"

subsection \<open>Byte fields\<close>

lemma unat_jchar_lt: "unat (u :: jchar) < 65536"
  using unsigned_less [of u] by simp

lemma of_char_lt: "(of_char c :: nat) < 256"
proof -
  have "(of_char c :: nat) = of_char (char_of (of_char c :: nat))" by simp
  also have "\<dots> = of_char c mod 256" by (rule of_char_of)
  finally show ?thesis by (metis mod_less_divisor zero_less_numeral)
qed

lemma char_of_byte: "(x::nat) < 256 \<Longrightarrow> (of_char (char_of x) :: nat) = x"
  by (simp add: of_char_of)

lemma digits3_join: "(m::nat) div 4096 * 4096 + m div 64 mod 64 * 64 + m mod 64 = m"
proof -
  have g: "\<And>a b::nat. a * 4096 + b * 64 = (a * 64 + b) * 64" by simp
  have "m div 4096 = m div 64 div 64"
    by (simp add: div_mult2_eq [symmetric])
  then have "m div 4096 * 4096 + m div 64 mod 64 * 64 = (m div 64 div 64 * 64 + m div 64 mod 64) * 64"
    by (simp only: g)
  also have "\<dots> = m div 64 * 64"
    by (simp only: div_mult_mod_eq)
  finally show ?thesis by simp
qed

lemma mutf8_char_of_nat:
  assumes "n < 65536"
  shows "mutf8_char (of_nat n) =
     (if 0 < n \<and> n < 0x80 then [char_of n]
      else if n < 0x800 then [char_of (0xC0 + n div 0x40), char_of (0x80 + n mod 0x40)]
      else [char_of (0xE0 + n div 0x1000), char_of (0x80 + n div 0x40 mod 0x40),
            char_of (0x80 + n mod 0x40)])"
  using assms by (simp add: mutf8_char_def Let_def unat_of_nat take_bit_nat_eq_self)

lemma digits2: "(b::nat) < 64 \<Longrightarrow> (a * 64 + b) div 64 = a \<and> (a * 64 + b) mod 64 = b"
  by simp

lemma digits3_split:
  assumes "(b::nat) < 64" "(c::nat) < 64"
  shows "(a * 4096 + b * 64 + c) div 4096 = a \<and> (a * 4096 + b * 64 + c) div 64 mod 64 = b \<and>
         (a * 4096 + b * 64 + c) mod 64 = c"
proof -
  have e: "a * 4096 + b * 64 + c = (a * 64 + b) * 64 + c" by simp
  have d1: "((a * 64 + b) * 64 + c) div 64 = a * 64 + b" "((a * 64 + b) * 64 + c) mod 64 = c"
    using digits2 [OF assms(2), of "a * 64 + b"] by auto
  have d2: "(a * 64 + b) div 64 = a" "(a * 64 + b) mod 64 = b"
    using digits2 [OF assms(1), of a] by auto
  have k: "(4096::nat) = 64 * 64" by simp
  show ?thesis unfolding e unfolding k by (simp only: div_mult2_eq d1 d2)
qed

subsection \<open>Round trips\<close>

lemma decode_char:
  "mutf8_decode (mutf8_char u @ cs) = map_option (Cons u) (mutf8_decode cs)"
proof -
  define n where "n = unat u"
  have n: "n < 65536" by (simp add: n_def unat_jchar_lt)
  have un: "of_nat n = u" by (simp add: n_def)
  have mc: "mutf8_char u =
     (if 0 < n \<and> n < 0x80 then [char_of n]
      else if n < 0x800 then [char_of (0xC0 + n div 0x40), char_of (0x80 + n mod 0x40)]
      else [char_of (0xE0 + n div 0x1000), char_of (0x80 + n div 0x40 mod 0x40),
            char_of (0x80 + n mod 0x40)])"
    by (simp add: mutf8_char_def n_def Let_def)
  consider (one) "0 < n \<and> n < 0x80" | (two) "\<not> (0 < n \<and> n < 0x80)" "n < 0x800"
    | (three) "0x800 \<le> n" by linarith
  then show ?thesis
  proof cases
    case one
    then show ?thesis by (simp add: mc un char_of_byte)
  next
    case two
    have "n div 64 < 32" using two by simp
    moreover have "(192 + n div 64 - 192) * 64 + (128 + n mod 64 - 128) = n" by simp
    moreover have "n = 0 \<or> 128 \<le> n" using two by linarith
    ultimately show ?thesis using two
      by (auto simp: mc un char_of_byte mutf8_cont_def Let_def)
  next
    case three
    have "n div 4096 < 16" using n by simp
    have "n div 4096 * 4096 + n div 64 mod 64 * 64 + n mod 64 = n"
      by (rule digits3_join)
    then have "(224 + n div 4096 - 224) * 4096 + (128 + n div 64 mod 64 - 128) * 64 + (128 + n mod 64 - 128) = n"
      by simp
    with three n show ?thesis
      by (simp add: mc un char_of_byte mutf8_cont_def Let_def)
  qed
qed

lemma mutf8_Nil [simp]: "mutf8 [] = []"
  and mutf8_Cons [simp]: "mutf8 (u # js) = mutf8_char u @ mutf8 js"
  by (simp_all add: mutf8_def)

lemma mutf8_append [simp]: "mutf8 (js @ ks) = mutf8 js @ mutf8 ks"
  by (simp add: mutf8_def)

lemma mutf8_roundtrip: "mutf8_decode (mutf8 js) = Some js"
  by (induction js) (simp_all add: decode_char)

lemma mutf8_decode_exact: "mutf8_decode s = Some js \<Longrightarrow> mutf8 js = s"
proof (induction s arbitrary: js rule: mutf8_decode.induct)
  case 1
  then show ?case by simp
next
  case (2 a cs)
  define x where "x = (of_char a :: nat)"
  have ax: "char_of x = a" by (simp add: x_def)
  have x256: "x < 256" using of_char_lt [of a] by (simp add: x_def)
  show ?case
  proof (cases "0 < x \<and> x < 0x80")
    case True
    with "2.prems" obtain js' where "js = of_nat x # js'" "mutf8_decode cs = Some js'"
      by (auto simp: x_def [symmetric])
    with True "2.IH"(1) [OF _ True] ax show ?thesis
      by (simp add: x_def [symmetric] mutf8_char_of_nat)
  next
    case f1: False
    show ?thesis
    proof (cases "192 \<le> x \<and> x < 224")
      case two: True
      then obtain b cs' where cs: "cs = b # cs'"
        using "2.prems" f1 by (cases cs) (auto simp: x_def [symmetric])
      define y where "y = (of_char b :: nat)"
      have yb: "char_of y = b" by (simp add: y_def)
      define n where "n = (x - 192) * 64 + (y - 128)"
      have dec: "mutf8_decode (a # cs) =
          (if mutf8_cont y \<and> (n = 0 \<or> 128 \<le> n) then map_option (Cons (of_nat n)) (mutf8_decode cs')
           else None)"
        unfolding mutf8_decode.simps(2) Let_def x_def [symmetric] cs list.case y_def [symmetric]
          n_def [symmetric]
        using f1 two by simp
      with "2.prems" have ok: "mutf8_cont y" "n = 0 \<or> 128 \<le> n"
        by (auto split: if_splits)
      with dec "2.prems" obtain js' where js': "mutf8_decode cs' = Some js'" "js = of_nat n # js'"
        by auto
      have "mutf8 js' = cs'"
        using "2.IH"(2) [OF x_def f1 two cs y_def n_def _ js'(1)] ok by simp
      moreover have "n div 64 = x - 192 \<and> n mod 64 = y - 128"
        unfolding n_def by (rule digits2) (use ok(1) in \<open>unfold mutf8_cont_def, linarith\<close>)
      moreover have "n < 2048" "\<not> (0 < n \<and> n < 128)"
        using two ok by (auto simp: n_def mutf8_cont_def)
      ultimately show ?thesis
        using js' cs ok(1) two ax yb by (simp add: mutf8_char_of_nat mutf8_cont_def)
    next
      case f2: False
      show ?thesis
      proof (cases "224 \<le> x \<and> x < 240")
        case three: True
        then obtain b c cs' where cs: "cs = b # c # cs'"
          using "2.prems" f1 f2 by (auto simp: x_def [symmetric] split: list.splits)
        define y where "y = (of_char b :: nat)"
        define z where "z = (of_char c :: nat)"
        have yb: "char_of y = b" and zc: "char_of z = c" by (simp_all add: y_def z_def)
        define n where "n = (x - 224) * 4096 + (y - 128) * 64 + (z - 128)"
        have dec: "mutf8_decode (a # cs) =
            (if mutf8_cont y \<and> mutf8_cont z \<and> 2048 \<le> n
             then map_option (Cons (of_nat n)) (mutf8_decode cs') else None)"
          unfolding mutf8_decode.simps(2) Let_def x_def [symmetric] cs list.case y_def [symmetric]
            z_def [symmetric] n_def [symmetric]
          using f1 f2 three by simp
        with "2.prems" have ok: "mutf8_cont y" "mutf8_cont z" "2048 \<le> n"
          by (auto split: if_splits)
        with dec "2.prems" obtain js' where js': "mutf8_decode cs' = Some js'" "js = of_nat n # js'"
          by auto
        have "mutf8 js' = cs'"
          using "2.IH"(3) [OF x_def f1 f2 three cs refl y_def z_def n_def _ js'(1)] ok by simp
        moreover have "n div 4096 = x - 224 \<and> n div 64 mod 64 = y - 128 \<and> n mod 64 = z - 128"
          unfolding n_def by (rule digits3_split) (use ok in \<open>unfold mutf8_cont_def, linarith+\<close>)
        moreover have "n < 65536"
          using three ok unfolding n_def mutf8_cont_def by linarith
        ultimately show ?thesis
          using js' cs ok three ax yb zc by (simp add: mutf8_char_of_nat mutf8_cont_def)
      next
        case False
        with "2.prems" f1 f2 show ?thesis by (simp add: x_def [symmetric] Let_def)
      qed
    qed
  qed
qed

subsection \<open>The bytes of an encoding\<close>

lemma mutf8_char_bytes:
  "map (of_char :: char \<Rightarrow> nat) (mutf8_char u) =
     (let n = unat u in
      if 0 < n \<and> n < 0x80 then [n]
      else if n < 0x800 then [0xC0 + n div 0x40, 0x80 + n mod 0x40]
      else [0xE0 + n div 0x1000, 0x80 + n div 0x40 mod 0x40, 0x80 + n mod 0x40])"
proof -
  have "unat u < 65536" by (rule unat_jchar_lt)
  then have "unat u div 4096 < 16" by simp
  then show ?thesis
    by (auto simp: mutf8_char_def Let_def char_of_byte)
qed

lemma mutf8_char_byte_cases:
  assumes "c \<in> set (mutf8_char u)"
  shows "(of_char c :: nat) = unat u \<and> 0 < unat u \<and> unat u < 0x80 \<or> 0x80 \<le> (of_char c :: nat)"
proof -
  have "(of_char c :: nat) \<in> set (map of_char (mutf8_char u))" using assms by simp
  then show ?thesis unfolding mutf8_char_bytes by (auto simp: Let_def split: if_splits)
qed

lemma mutf8_no_nul: "NUL \<notin> set (mutf8 js)"
proof
  assume "NUL \<in> set (mutf8 js)"
  then obtain u where "NUL \<in> set (mutf8_char u)" by (auto simp: mutf8_def)
  from mutf8_char_byte_cases [OF this] show False by auto
qed

lemma mutf8_NL_iff: "NL \<in> set (mutf8 js) \<longleftrightarrow> 10 \<in> set js"
proof
  assume "NL \<in> set (mutf8 js)"
  then obtain u where u: "u \<in> set js" "NL \<in> set (mutf8_char u)" by (auto simp: mutf8_def)
  from mutf8_char_byte_cases [OF u(2)] have u10: "unat u = 10" by simp
  have "u = of_nat (unat u)" by simp
  also have "\<dots> = 10" using u10 by simp
  finally have "u = 10" .
  with u show "10 \<in> set js" by simp
next
  assume "10 \<in> set js"
  moreover have "(of_char NL :: nat) = 10" by simp
  then have "char_of (10::nat) = NL" by (metis char_of_char)
  then have "mutf8_char 10 = [NL]" by (simp add: mutf8_char_def)
  ultimately show "NL \<in> set (mutf8 js)" by (force simp: mutf8_def)
qed

lemma mutf8_char_length: "1 \<le> length (mutf8_char u) \<and> length (mutf8_char u) \<le> 3"
  by (simp add: mutf8_char_def Let_def)

lemma mutf8_length: "length js \<le> length (mutf8 js) \<and> length (mutf8 js) \<le> 3 * length js"
proof (induction js)
  case Nil
  then show ?case by simp
next
  case (Cons u js)
  with mutf8_char_length [of u] show ?case by simp
qed

subsection \<open>The JNI calls\<close>

lemma GetStringUTFChars_cstr: "cstr (GetStringUTFChars js) = mutf8 js"
  using mutf8_no_nul [of js] by (simp add: GetStringUTFChars_def cstr_terminated)

lemma NewStringUTF_mutf8: "NewStringUTF (mutf8 js) = Some js"
  using mutf8_no_nul [of js] by (simp add: NewStringUTF_def mutf8_roundtrip)

lemma NewStringUTF_exact: "NewStringUTF l = Some js \<Longrightarrow> mutf8 js = cstr l"
  by (simp add: NewStringUTF_def mutf8_decode_exact)

end
