(* ===== verification/Jni_Facade.thy ===== *)
theory Jni_Facade
  imports Bridge_Facade Jni_Strings
begin

text \<open>
  The JNI entry points as the Kotlin caller sees them, with Java strings on both
  sides. \<open>Java_nativeSendCommand\<close> is the whole of
  \<open>Java_..._nativeSendCommand\<close> (bridge.cpp lines 109-120): the
  \<open>GetStringUTFChars\<close> copy, the queue push of Bridge_Facade's
  \<open>nativeSendCommand\<close> and \<open>ReleaseStringUTFChars\<close>, which frees the copy and
  changes nothing the model holds. \<open>Java_nativeReadLine_result\<close> is the end of
  \<open>Java_..._nativeReadLine\<close> (lines 133-139) after the wait: a null reference, or
  the Java string \<open>NewStringUTF\<close> makes of the dequeued line, or no defined
  result when that line is not modified UTF-8.
\<close>

datatype jobj = JNull | JStr jstring | JUndefined string

definition jreturn :: "line option \<Rightarrow> jobj" where
  "jreturn r =
     (case r of
        None \<Rightarrow> JNull
      | Some l \<Rightarrow> (case NewStringUTF l of Some js \<Rightarrow> JStr js | None \<Rightarrow> JUndefined l))"

definition Java_nativeSendCommand :: "jstring \<Rightarrow> ('w, 'x) bridge_scheme \<Rightarrow> ('w, 'x) bridge_scheme" where
  "Java_nativeSendCommand command s = nativeSendCommand (GetStringUTFChars command) s"

definition Java_nativeReadLine_result :: "bool \<Rightarrow> ('w, 'x) bridge_scheme \<Rightarrow> jobj \<times> ('w, 'x) bridge_scheme" where
  "Java_nativeReadLine_result received s =
     (case nativeReadLine_result received s of (r, s') \<Rightarrow> (jreturn r, s'))"

lemma Java_nativeSendCommand_push:
  "Java_nativeSendCommand js s = s\<lparr>inputQueue := inputQueue s @ [mutf8 js]\<rparr>"
  by (simp add: Java_nativeSendCommand_def nativeSendCommand_def GetStringUTFChars_cstr)

lemma jreturn_mutf8: "jreturn (Some (mutf8 js)) = JStr js"
  by (simp add: jreturn_def NewStringUTF_mutf8)

lemma jreturn_cases:
  "jreturn r = JStr js \<longleftrightarrow> (\<exists>l. r = Some l \<and> NewStringUTF l = Some js)"
  by (auto simp: jreturn_def split: option.splits)

end
