(* ===== verification/Line_Invariants.thy ===== *)
theory Line_Invariants
  imports Bridge_System
begin

text \<open>
  Two invariants of every run of the concurrent system, whatever the engine and
  however often \<open>nativeInit\<close> is called or fails. \<open>lines_typed\<close>: every entry of
  the input queue is a C string (it was made by \<open>std::string(cmd)\<close> or is
  \<open>quit\<close>); every entry of the output queue and every partial line held by any
  \<open>OutputBuffer\<close> on the heap, installed or leaked, has no newline; and every line a
  \<open>nativeReadLine\<close> returned is a Line of the spec, with neither newline nor NUL.
  \<open>queue_step\<close>: each step changes a queue only as the spec's Line Queue allows,
  by appending at most one line at its tail or removing its head. \<open>racing_readers\<close>
  names the states in which two worker threads race on the \<open>InputBuffer\<close>'s get
  pointer; each init adds at most one thread, so it takes two inits to get there.
\<close>

definition lines_typed :: "'w sys \<Rightarrow> bool" where
  "lines_typed s \<longleftrightarrow>
     wf_bridge s \<and>
     list_all (\<lambda>l. NUL \<notin> set l) (inputQueue s) \<and>
     list_all no_nl (outputQueue s) \<and>
     list_all (\<lambda>b. no_nl (lineBuffer b)) (outHeap s) \<and>
     list_all (\<lambda>r. pred_option (\<lambda>l. no_nl l \<and> NUL \<notin> set l) (snd r)) (results s)"

definition queue_step :: "line list \<Rightarrow> line list \<Rightarrow> bool" where
  "queue_step q q' \<longleftrightarrow> q' = q \<or> (\<exists>l. q' = q @ [l]) \<or> (\<exists>l. q = l # q')"

text \<open>Two or more worker threads about to read through \<open>std::cin\<close> while its
  buffer's get area is not empty: each would take the character at \<open>gptr()\<close> and
  advance it outside \<open>inputMutex\<close>, a data race.\<close>

definition reading :: "'w engine \<Rightarrow> 'w tstate \<Rightarrow> bool" where
  "reading E th = (case th of TLoop w \<Rightarrow> (case eng_step E w of WRead k \<Rightarrow> True | _ \<Rightarrow> False) | _ \<Rightarrow> False)"

definition racing_readers :: "'w engine \<Rightarrow> 'w sys \<Rightarrow> bool" where
  "racing_readers E s \<longleftrightarrow>
     2 \<le> length (filter (reading E) (threads s)) \<and>
     (case cinBuf s of
        None \<Rightarrow> False
      | Some p \<Rightarrow> gnext (inHeap s ! p) < length (currentLine (inHeap s ! p)))"

lemma sbumpc_queue:
  "sbumpc b q = Some (c, b', q') \<Longrightarrow> q' = q \<or> (\<exists>l. q = l # q')"
  by (auto simp: sbumpc_def uflow_def underflow_def Let_def split: if_splits option.splits list.splits)

lemma uflow_queue:
  "uflow b q = Some (c, b', q') \<Longrightarrow> q' = q \<or> (\<exists>l. q = l # q')"
  by (auto simp: uflow_def underflow_def Let_def split: if_splits option.splits list.splits)

lemma sputc_queue:
  "sputc c b q = (r, b', q') \<Longrightarrow> q' = q \<or> q' = q @ [lineBuffer b]"
  by (cases "c = NL") (auto simp: sputc_NL sputc_other)

text \<open>One worker step, by what it does to the two queues.\<close>

lemma thread_step_queues:
  assumes "thread_step E i s = Some (io, s')"
  obtains (none) ts lg where "io = TNone" "s' = s\<lparr>threads := ts, syslog := lg\<rparr>"
  | (rd) p and c' :: int_type and b' q' ts where "io = TIn (char_of c')"
      "s' = s\<lparr>inHeap := (inHeap s)[p := b'], inputQueue := q', threads := ts\<rparr>"
      "q' = inputQueue s \<or> (\<exists>l. inputQueue s = l # q')"
  | (wr) c p r b' q' ts where "io = TOut c" "coutBuf s = Some p"
      "sputc c (outHeap s ! p) (outputQueue s) = (r, b', q')"
      "s' = s\<lparr>outHeap := (outHeap s)[p := b'], outputQueue := q', threads := ts\<rparr>"
  using thread_step_io [OF assms]
proof (elim disjE exE conjE)
  fix p c' b' q' ts
  assume a: "io = TIn (char_of c')" "s' = s\<lparr>inHeap := (inHeap s)[p := b'], inputQueue := q', threads := ts\<rparr>"
    "cinBuf s = Some p" "sbumpc (inHeap s ! p) (inputQueue s) = Some (c', b', q')"
  from a(4) have "q' = inputQueue s \<or> (\<exists>l. inputQueue s = l # q')" by (rule sbumpc_queue)
  with a(1,2) show thesis by (rule rd)
next
  fix p c' b' q' ts w
  assume a: "io = TIn (char_of c')" "s' = s\<lparr>inHeap := (inHeap s)[p := b'], inputQueue := q', threads := ts\<rparr>"
    "threads s ! i = TReadWait w p" "uflow (inHeap s ! p) (inputQueue s) = Some (c', b', q')"
  from a(4) have "q' = inputQueue s \<or> (\<exists>l. inputQueue s = l # q')" by (rule uflow_queue)
  with a(1,2) show thesis by (rule rd)
qed (rule none wr; assumption)+

lemma no_nl_cstr: "no_nl l \<Longrightarrow> no_nl (cstr l)"
  by (auto simp: no_nl_def cstr_def dest: set_takeWhileD)

lemma lines_typed_sys0: "lines_typed sys0"
  by (simp add: lines_typed_def sys0_def wf_bridge_def)

lemma thread_keeps_typed:
  assumes "thread_step E i s = Some (io, s')" and "lines_typed s"
  shows "lines_typed (note_io io s')"
proof -
  have wf: "wf_bridge s'" using assms thread_step_wf by (auto simp: lines_typed_def)
  from assms(1) consider
      (none) ts lg where "io = TNone" "s' = s\<lparr>threads := ts, syslog := lg\<rparr>"
    | (rd) p and c' :: int_type and b' q' ts where "io = TIn (char_of c')"
        "s' = s\<lparr>inHeap := (inHeap s)[p := b'], inputQueue := q', threads := ts\<rparr>"
        "q' = inputQueue s \<or> (\<exists>l. inputQueue s = l # q')"
    | (wr) c p r b' q' ts where "io = TOut c" "coutBuf s = Some p"
        "sputc c (outHeap s ! p) (outputQueue s) = (r, b', q')"
        "s' = s\<lparr>outHeap := (outHeap s)[p := b'], outputQueue := q', threads := ts\<rparr>"
    by (rule thread_step_queues)
  then show ?thesis
  proof cases
    case none
    with assms(2) wf show ?thesis
      by (cases io) (simp_all add: lines_typed_def note_io_def wf_bridge_def)
  next
    case rd
    with assms(2) wf show ?thesis
      by (auto simp: lines_typed_def note_io_def wf_bridge_def)
  next
    case wr
    have p: "p < length (outHeap s)" using wr(2) assms(2) by (simp add: lines_typed_def wf_bridge_def)
    then have old: "no_nl (lineBuffer (outHeap s ! p))" using assms(2)
      by (simp add: lines_typed_def list_all_length)
    from sputc_no_nl [OF wr(3) old] obtain ls where
      b': "no_nl (lineBuffer b')" and q': "q' = outputQueue s @ ls" "list_all no_nl ls" by blast
    with wr assms(2) wf show ?thesis
      by (auto simp: lines_typed_def note_io_def wf_bridge_def intro: list_all_update)
  qed
qed

lemma sys_step_keeps_typed:
  "sys_step E s e t \<Longrightarrow> lines_typed s \<Longrightarrow> lines_typed t"
proof (induction rule: sys_step.induct)
  case (init s f)
  then show ?case
    by (cases f) (auto simp: lines_typed_def nativeInit_def init_body_cases wf_bridge_def
        outbuf_init_def elim: option.pred_mono_strong)
next
  case (send s cmd)
  then show ?case
    by (simp add: lines_typed_def nativeSendCommand_def wf_bridge_def cstr_no_nul_result)
next
  case (read_wake s i d l q r s')
  then show ?case
    by (auto simp: lines_typed_def nativeReadLine_result_def wf_bridge_def no_nl_cstr cstr_no_nul_result)
next
  case (read_timeout s i d r s')
  then show ?case
    by (auto simp: lines_typed_def nativeReadLine_result_def wf_bridge_def)
next
  case (destroy s)
  then show ?case
    by (simp add: lines_typed_def nativeDestroy_def wf_bridge_def)
next
  case (thread i s io s')
  then show ?case by (rule thread_keeps_typed)
qed (simp_all add: lines_typed_def wf_bridge_def)

lemma runs_keep_typed: "runs E s es t \<Longrightarrow> lines_typed s \<Longrightarrow> lines_typed t"
  by (induction rule: runs.induct) (auto dest: sys_step_keeps_typed)

lemma thread_queue_step:
  assumes "thread_step E i s = Some (io, s')"
  shows "queue_step (inputQueue s) (inputQueue s') \<and> queue_step (outputQueue s) (outputQueue s')"
  using assms
proof (cases rule: thread_step_queues)
  case (wr c p r b' q' ts)
  then show ?thesis by (auto simp: queue_step_def dest!: sputc_queue)
qed (auto simp: queue_step_def)

text \<open>With no worker thread, or only returned ones, nothing but an init can start one:
  the streams are never read or written, and the input queue only grows.\<close>

lemma done_step_idle:
  assumes "sys_step E s e t" and "\<not> is_init e" and "list_all (\<lambda>th. th = TDone) (threads s)"
  shows "threads t = threads s \<and> consumed t = consumed s \<and> written t = written s \<and>
    (\<exists>ls. inputQueue t = inputQueue s @ ls \<and> sent t = sent s @ ls)"
  using assms
proof (induction rule: sys_step.induct)
  case (thread i s io s')
  then have "threads s ! i = TDone" "i < length (threads s)"
    by (simp_all add: thread_step_def list_all_length split: if_splits)
  with thread.hyps show ?case by (simp add: thread_step_def)
qed (auto simp: nativeSendCommand_def nativeDestroy_def nativeReadLine_result_def split: if_splits)

lemma done_runs_idle:
  assumes "runs E s es t" and "\<not> list_ex is_init es" and "list_all (\<lambda>th. th = TDone) (threads s)"
  shows "threads t = threads s \<and> consumed t = consumed s \<and> written t = written s \<and>
    (\<exists>ls. inputQueue t = inputQueue s @ ls \<and> sent t = sent s @ ls)"
  using assms
proof (induction rule: runs.induct)
  case (runs_nil s)
  then show ?case by simp
next
  case (runs_cons s e t es u)
  with done_step_idle [OF runs_cons.hyps(1)] show ?case by force
qed

lemma no_thread_runs_idle:
  assumes "runs E s es t" and "\<not> list_ex is_init es" and "threads s = []"
  shows "threads t = [] \<and> consumed t = consumed s \<and> written t = written s"
  using done_runs_idle [OF assms(1,2)] assms(3) by simp

text \<open>Only an init adds a worker thread, and at most one.\<close>

lemma step_threads_single:
  assumes "sys_step E s e t" and "\<not> is_init e"
  shows "length (threads t) = length (threads s)"
  using assms
  by (induction rule: sys_step.induct)
     (auto simp: nativeSendCommand_def nativeDestroy_def nativeReadLine_result_def thread_step_def
       note_io_def split: if_splits tstate.splits wact.splits option.splits prod.splits tio.splits)

lemma step_threads_init:
  "sys_step E s (EvInit f) t \<Longrightarrow> length (threads t) \<le> Suc (length (threads s))"
  by (cases f) (auto elim!: step_initE simp: nativeInit_def init_body_cases)

lemma runs_threads_bound:
  "runs E s es t \<Longrightarrow> length (threads t) \<le> length (threads s) + length (filter is_init es)"
proof (induction rule: runs.induct)
  case (runs_nil s)
  then show ?case by simp
next
  case (runs_cons s e t es u)
  show ?case
  proof (cases "is_init e")
    case True
    then obtain f where "e = EvInit f" by (cases e) auto
    with runs_cons step_threads_init [of E s f t] show ?thesis by simp
  next
    case False
    with runs_cons step_threads_single [of E s e t] show ?thesis by simp
  qed
qed

end
