(* ===== verification/Spec2Isabelle.thy ===== *)
theory Spec2Isabelle
  imports Echo_Session Jni_Facade Line_Invariants
begin

text \<open>
  \<^bold>\<open>A verified model of MindGambit's JNI engine bridge.\<close>

  \<^emph>\<open>The program.\<close> src/app/src/main/jni/bridge.cpp connects the Kotlin
  \<open>StockfishEngine\<close> to a chess engine running on a detached native thread. Two
  static \<open>std::queue<std::string>\<close>, each with a mutex and a condition variable,
  carry lines: \<open>inputQueue\<close> from the callers to the engine, \<open>outputQueue\<close>
  back. \<open>nativeInit\<close> allocates an \<open>InputBuffer\<close> and an \<open>OutputBuffer\<close>,
  installs them under \<open>std::cin\<close> and \<open>std::cout\<close>, sets \<open>engineRunning\<close> and
  starts the thread running \<open>Stockfish::init(); Stockfish::loop("")\<close>. The engine
  reads \<open>std::cin\<close>: \<open>InputBuffer::underflow\<close> waits for a queued line and
  serves it with a newline appended. It writes \<open>std::cout\<close>:
  \<open>OutputBuffer::overflow\<close> collects characters and queues a line at each
  newline. \<open>nativeSendCommand\<close> converts the Java command with
  \<open>GetStringUTFChars\<close> and queues it, \<open>nativeReadLine\<close> waits up to 5000 ms for
  an answer line and converts it with \<open>NewStringUTF\<close>, \<open>nativeDestroy\<close> queues
  \<open>quit\<close> and clears the flag. src/app/src/main/jni/stockfish/stockfish_stub.cpp is
  the engine the repository links: its \<open>init\<close> and \<open>loop\<close> only log.

  \<^emph>\<open>The theories.\<close>
  \<^item> Bridge_Prelude: lines as byte strings, \<open>char_traits\<close>' \<open>eof\<close> and
    \<open>to_int_type\<close>, the newline-framed rendering \<open>terminated\<close> of a list of lines
    and its inverse \<open>split_lines\<close> (round trip both ways), the C-string
    truncation \<open>cstr\<close>.
  \<^item> Stream_Buffers: \<open>InputBuffer\<close> (record \<open>inbuf\<close>: \<open>currentLine\<close> and
    the get pointer's offset; \<open>underflow\<close>, \<open>None\<close> while the queue is empty)
    and \<open>OutputBuffer\<close> (record \<open>outbuf\<close>; \<open>overflow\<close>), and the C++
    library's read and write paths over them (\<open>sbumpc\<close>, \<open>std::getline\<close>,
    \<open>sputc\<close>, as libc++, the NDK's library, implements them). Abstraction
    functions \<open>in_stream\<close>/\<open>out_stream\<close> give the character stream each adapter
    stands for; the lemmas show that \<open>sbumpc\<close> pops that stream and blocks exactly
    when it is empty, that \<open>getline\<close> terminates (measure: length of the stream),
    and that writing through \<open>overflow\<close> is \<open>split_lines\<close>.
  \<^item> Worker: the engine interface, a step function answering read, write, log or
    return, and the messages \<open>init()\<close> logs;
    the linked stub, and an echo engine (answers \<open>pong\<close> to \<open>ping\<close>, leaves
    its loop on \<open>quit\<close>) used for the spec's scenarios.
  \<^item> Bridge_Facade: the process state (record \<open>bridge\<close>, the statics of
    bridge.cpp lines 26-37 and 73-74, with the buffer objects on two heaps so that the
    static pointers and the buffers under \<open>std::cin\<close>/\<open>std::cout\<close> may
    diverge), the four entry points on byte strings (\<open>nativeInit\<close> with each
    throwing point as a parameter and the effects before a throw kept), one
    worker-thread step (a worker whose read finds nothing blocks inside the
    \<open>underflow\<close> of that \<open>InputBuffer\<close> object, state \<open>TReadWait\<close>, and when it
    wakes takes its character from that object, whatever \<open>std::cin\<close> holds by then), the well-formedness of the heaps, and the spec's lifecycle
    machine with the abstraction \<open>phase_of\<close>.
  \<^item> Jni_Strings: Java strings as lists of 16-bit code units (\<open>16 word\<close>), the
    JNI's modified UTF-8 (\<open>mutf8\<close>, \<open>mutf8_decode\<close>) and the calls
    \<open>GetStringUTFChars\<close> and \<open>NewStringUTF\<close> built on it, with the round trip
    in both directions, the absence of NUL bytes, newline bytes exactly at U+000A and
    the length bounds.
  \<^item> Jni_Facade: \<open>nativeSendCommand\<close> and the end of \<open>nativeReadLine\<close> with
    Java strings on the caller's side; the returned object is a null reference, a Java
    string, or undefined when the line is not modified UTF-8.
  \<^item> Bridge_System: the concurrent system. A labelled step relation \<open>sys_step\<close>
    interleaves any number of callers (each entry point one atomic step, the wait
    of \<open>nativeReadLine\<close> two: begin with deadline \<open>now + 5000\<close>, end woken
    with a line or at the deadline with none), the worker threads and clock ticks;
    \<open>runs\<close> chains steps. History variables record the lines sent, the
    characters read and written by workers and the lines dequeued. The invariant
    \<open>sys_inv\<close> (with \<open>waits_ok\<close>: at most one worker, blocked only in the buffer
    under \<open>std::cin\<close> with its get area used up) holds on every run with at most one \<open>nativeInit\<close>, for every
    engine. \<open>exec_ev\<close>/\<open>exec_run\<close> compute the same steps, so concrete
    scenarios evaluate by \<open>simp\<close>.
  \<^item> Line_Invariants: invariants of every run, with any number of inits: the
    lines on the queues and the lines returned are Lines (\<open>lines_typed\<close>), and each
    step moves each queue as a FIFO (\<open>queue_step\<close>).
  \<^item> Echo_Session: the request/response cycle of one command with the echo
    engine (\<open>serve_events\<close>: send, the worker's reads and writes, the caller's
    read) as a run of the system, and its iteration over any list of commands.
  \<^item> Android_Log: the \<open>LOGI\<close>/\<open>LOGE\<close> macros as entries (priority, tag,
    message) appended to the system log, a field \<open>syslog\<close> of the process state
    written by \<open>nativeInit\<close>, \<open>nativeDestroy\<close> and the engine (the stub's
    \<open>init\<close> and \<open>loop\<close> each log one message: action \<open>WLog\<close>).
  \<^item> This theory: the scenarios and the properties C1-C32.

  \<^emph>\<open>What is proved.\<close> C1-C2: each direction is an exactly-once FIFO channel
  (refinement of the bridge by a newline-framed character channel, over all
  interleavings). C3-C5: the adapters frame lines correctly and never expose a partial
  line. C6-C8: a read with no line ends no earlier than its 5000 ms timeout, a waiting
  read can always end once the clock reaches its deadline, the worker's read blocks
  in \<open>underflow\<close> exactly when no input is available. C9-C11: init's result for
  every throwing point, no answer on any run in which nothing was sent, and that the
  linked stub never answers on any run. C12-C14, C16: behaviours beyond the spec (a
  second init strands the unread rest of the get area, lines are cut at NUL, a command
  with a newline is queued as one entry and read as two lines, a failed init sets the
  running flag). C15: the entry points refine the spec's lifecycle machine. C17: a
  whole session with the echo engine answers any list of commands, in order.
  C18-C21: the Java side: a command reaches the worker as exactly its modified UTF-8
  bytes (U+0000 included) and converts back, a returned string is exactly the decoding
  of the dequeued line, engine output that is not modified UTF-8 gives an undefined
  result, and a whole session returns the very Java strings sent. C22: every line
  handed out is a Line (no newline, no NUL) on every run. C23: every step moves the
  queues as FIFOs. C24: \<open>std::getline\<close> over the \<open>InputBuffer\<close> equals the
  reference line reader on the abstract stream, blocking included. C25: from any idle
  state, \<open>nativeDestroy\<close> makes the worker read \<open>quit\<close> and return. C26: after a
  failed init no schedule ever reads or writes the queues through a worker. C27: with
  one init there is at most one worker (with two, C9 shows that a second worker starts
  beside the first, and both read through the same \<open>std::cin\<close>). C28: a blocked
  worker stays blocked exactly while the input queue is empty and wakes with the front
  line in the buffer it blocked in. C29: a second init while the worker waits for a
  command corrupts the commands that follow (the first character of the next command
  is read from the old buffer, the rest of it is stranded there, and the engine reads
  that character glued to the command after). C30: the log's error entries are
  exactly the failed inits. C31: the stub's worker logs its two messages and returns.
  C32: once the worker has returned, commands are still accepted and pile up unread.

  \<^emph>\<open>Bounds and time.\<close> No fuel is used: \<open>getline\<close> terminates by a
  measure, blocking is the value \<open>None\<close> of a step, and the runs are finite
  lists of events. The clock counts milliseconds in \<open>nat\<close>; the only constant
  is the 5000 ms of \<open>wait_for\<close>. Queues are unbounded lists, as in the code.
  Java characters are 16-bit words, so an encoded unit has at most three bytes.

  \<^emph>\<open>Not modelled.\<close> The formatting of \<open>__android_log_print\<close> (every
  message is a constant without format directives, so the entry is the message
  itself); out-of-memory results of the JNI calls
  (\<open>GetStringUTFChars\<close> or \<open>NewStringUTF\<close> returning null) and virtual-machine
  specific encodings beyond the JNI specification (surrogate pairs are encoded unit by
  unit, as the specification says; Android's runtime writes a valid pair as one 4-byte
  sequence); a throw from \<open>detach()\<close>; the interleaving of log entries written by
  different threads inside one entry point (each entry point is one atomic step, so
  \<open>nativeInit\<close>'s entry precedes the new worker's); log entries of an engine at
  other priorities than INFO (the linked stub only uses \<open>LOGI\<close>); the Kotlin
  caller; the real Stockfish engine (only the stub and the echo engine); memory
  reclamation (the leaked buffers stay on the heaps); scheduling fairness (liveness is
  stated as the existence of a completing run); data races: each worker character is
  one atomic step, so two workers reading through one get area after a second init
  (possible by C9) are serialised in the model, whereas in C++ they race.
\<close>

section \<open>Scenarios\<close>

text \<open>Event sequences of the spec's scenarios, run with the echo engine.\<close>

definition ping_events :: "ev list" where
  "ping_events =
     [EvInit NoFault, EvSend ''ping'', EvThread 0,
      EvThread 0, EvThread 0, EvThread 0, EvThread 0, EvThread 0,
      EvThread 0, EvThread 0, EvThread 0, EvThread 0, EvThread 0,
      EvReadBegin 0, EvReadEnd 0]"

definition silent_events :: "ev list" where
  "silent_events = [EvInit NoFault, EvReadBegin 0] @ replicate read_timeout_ms EvTick @ [EvReadEnd 0]"

definition quit_events :: "ev list" where
  "quit_events =
     [EvInit NoFault, EvThread 0, EvDestroy,
      EvThread 0, EvThread 0, EvThread 0, EvThread 0, EvThread 0, EvThread 0]"

text \<open>The echo engine has read nothing and therefore written nothing: each worker
  is started, or waits for its first character, in its loop or blocked in
  \<open>underflow\<close>.\<close>

fun echo_idle :: "echo_st tstate \<Rightarrow> bool" where
  "echo_idle TStart \<longleftrightarrow> True"
| "echo_idle (TLoop w) \<longleftrightarrow> w = EReading []"
| "echo_idle (TReadWait w p) \<longleftrightarrow> w = EReading []"
| "echo_idle TDone \<longleftrightarrow> False"

definition echo_quiet :: "echo_st sys \<Rightarrow> bool" where
  "echo_quiet s \<longleftrightarrow>
     written s = [] \<and> outputQueue s = [] \<and> list_all (\<lambda>x. snd x = None) (results s) \<and>
     list_all echo_idle (threads s)"

definition java_serve_events :: "jstring \<Rightarrow> ev list" where
  "java_serve_events js = EvSend (GetStringUTFChars js) # tl (serve_events (mutf8 js))"

text \<open>A \<open>nativeInit\<close> that throws.\<close>

fun failed_init :: "ev \<Rightarrow> bool" where
  "failed_init (EvInit f) \<longleftrightarrow> f \<noteq> NoFault"
| "failed_init _ \<longleftrightarrow> False"

lemma ping_reachable:
  "\<exists>s. runs echo_engine sys0 ping_events s \<and> results s = [(0, Some ''pong'')]"
proof -
  have "\<exists>s. exec_run echo_engine sys0 ping_events = Some s \<and> results s = [(0, Some ''pong'')]"
    by (simp add: ping_events_def echo_engine_def echo_read_def echo_reply_def exec_simps)
  then show ?thesis by (simp add: runs_exec_run)
qed

lemma silent_reachable:
  "\<exists>t. runs echo_engine sys0 silent_events t \<and> results t = [(0, None)] \<and> now t = read_timeout_ms \<and>
       sent t = []"
proof -
  have "\<exists>s1. exec_run echo_engine sys0 [EvInit NoFault, EvReadBegin 0] = Some s1 \<and>
      callers s1 0 = CWaiting read_timeout_ms \<and> now s1 = 0 \<and> outputQueue s1 = [] \<and> results s1 = [] \<and>
      sent s1 = []"
    by (simp add: exec_simps)
  then obtain s1 where r1: "runs echo_engine sys0 [EvInit NoFault, EvReadBegin 0] s1"
    and s1: "callers s1 0 = CWaiting read_timeout_ms" "now s1 = 0" "outputQueue s1 = []" "results s1 = []"
      "sent s1 = []"
    by (auto simp: runs_exec_run)
  let ?s2 = "s1\<lparr>now := now s1 + read_timeout_ms\<rparr>"
  have r2: "runs echo_engine s1 (replicate read_timeout_ms EvTick) ?s2"
    by (rule runs_ticks)
  have w: "callers ?s2 0 = CWaiting read_timeout_ms" "read_timeout_ms \<le> now ?s2" "outputQueue ?s2 = []"
    using s1 by simp_all
  have "nativeReadLine_result False ?s2 = (None, ?s2)"
    by (simp add: nativeReadLine_result_def)
  with w have "sys_step echo_engine ?s2 (EvReadEnd 0)
      (?s2\<lparr>callers := (callers ?s2)(0 := CIdle), results := results ?s2 @ [(0, None)]\<rparr>)"
    by (rule sys_step.read_timeout)
  then have "runs echo_engine ?s2 [EvReadEnd 0]
      (?s2\<lparr>callers := (callers ?s2)(0 := CIdle), results := results ?s2 @ [(0, None)]\<rparr>)"
    by (blast intro: runs.intros)
  with r1 r2 s1 show ?thesis
    unfolding silent_events_def by (fastforce intro: runs_append)
qed

section \<open>The two channels\<close>

text \<open>C1. Caller-to-worker channel, no loss, no duplication, no reordering: in every
  run of the bridge with any engine and at most one \<open>nativeInit\<close>, the characters
  the worker threads have read through \<open>std::cin\<close>, followed by those still
  readable there, are exactly the lines pushed by \<open>nativeSendCommand\<close> and
  \<open>nativeDestroy\<close>, in push order, each with one newline.\<close>

theorem input_channel_exactly_once:
  assumes "runs E sys0 es s" and "length (filter is_init es) \<le> 1"
  shows "consumed s @ cin_stream s = terminated (sent s)"
  using reachable_inv [OF assms] by (simp add: sys_inv_def)

theorem input_channel_exactly_once_witness:
  "\<exists>s. runs echo_engine sys0 ping_events s \<and> length (filter is_init ping_events) \<le> 1 \<and>
       consumed s @ cin_stream s = terminated (sent s)"
proof -
  obtain s where r: "runs echo_engine sys0 ping_events s" using ping_reachable by blast
  have n: "length (filter is_init ping_events) \<le> 1" by (simp add: ping_events_def)
  show ?thesis using r n input_channel_exactly_once [OF r n] by blast
qed

text \<open>C2. Worker-to-caller channel, exactly once and in order: in every run with at
  most one \<open>nativeInit\<close>, the lines the callers' \<open>nativeReadLine\<close> calls returned,
  in return order, followed by the lines still queued, are exactly the complete
  lines the workers wrote (as C strings), and the unterminated rest of the output is
  the partial line held by the buffer under \<open>std::cout\<close>.\<close>

theorem output_channel_exactly_once:
  assumes "runs E sys0 es s" and "length (filter is_init es) \<le> 1"
  shows "List.map_filter snd (results s) @ map cstr (outputQueue s) =
           map cstr (fst (split_lines [] (written s))) \<and>
         snd (split_lines [] (written s)) = pending_line s"
proof -
  have inv: "sys_inv s" using assms by (rule reachable_inv)
  then have w: "written s = terminated (delivered s @ outputQueue s) @ pending_line s"
    by (simp add: sys_inv_def cout_stream_pending)
  from inv have "list_all no_nl (delivered s @ outputQueue s)" "no_nl (pending_line s)"
    by (auto simp: sys_inv_def out_lines_ok_def pending_line_def split: option.splits)
  then have "split_lines [] (terminated (delivered s @ outputQueue s) @ pending_line s) =
      (delivered s @ outputQueue s, pending_line s)"
    by (rule split_lines_terminated)
  then have "split_lines [] (written s) = (delivered s @ outputQueue s, pending_line s)"
    by (simp only: w)
  with inv show ?thesis by (simp add: sys_inv_def)
qed

theorem output_channel_exactly_once_witness:
  "\<exists>s. runs echo_engine sys0 ping_events s \<and> length (filter is_init ping_events) \<le> 1 \<and>
       List.map_filter snd (results s) @ map cstr (outputQueue s) =
         map cstr (fst (split_lines [] (written s))) \<and>
       snd (split_lines [] (written s)) = pending_line s"
proof -
  obtain s where r: "runs echo_engine sys0 ping_events s" using ping_reachable by blast
  have n: "length (filter is_init ping_events) \<le> 1" by (simp add: ping_events_def)
  show ?thesis using r n output_channel_exactly_once [OF r n] by blast
qed

section \<open>Stream adapters\<close>

text \<open>C3. Input adapter, FIFO and newline framing: a worker that starts reading from a
  fresh \<open>InputBuffer\<close> with the lines \<open>ls\<close> queued, none with an embedded newline,
  reads back exactly \<open>ls\<close> in order with \<open>std::getline\<close>, and the characters
  left for it are exactly those of the lines still queued behind them.\<close>

theorem worker_reads_sent_lines:
  assumes "list_all no_nl ls"
  shows "\<exists>b' q'. getlines (length ls) inbuf_init (ls @ q) = Some (ls, b', q') \<and>
                 in_stream b' q' = terminated q"
proof -
  have "in_stream inbuf_init (ls @ q) = terminated ls @ terminated q"
    by (simp add: in_stream_def inbuf_init_def)
  with assms show ?thesis by (rule getlines_stream)
qed

theorem worker_reads_sent_lines_witness:
  "list_all no_nl [''uci'', ''isready''] \<and>
   (\<exists>b' q'. getlines (length [''uci'', ''isready'']) inbuf_init ([''uci'', ''isready''] @ [''quit'']) =
      Some ([''uci'', ''isready''], b', q') \<and> in_stream b' q' = terminated [''quit''])"
proof -
  have h: "list_all no_nl [''uci'', ''isready'']" by (simp add: no_nl_def)
  show ?thesis using h worker_reads_sent_lines [OF h, of "[''quit'']"] by blast
qed

text \<open>C4. Output adapter, framing round trip: when the worker writes the lines
  \<open>ls\<close> each followed by a newline and then an unterminated tail \<open>p\<close> to a fresh
  \<open>OutputBuffer\<close>, the output queue receives exactly \<open>ls\<close>, in order and without
  their newlines, and \<open>p\<close> is left in \<open>lineBuffer\<close>.\<close>

theorem worker_writes_reach_queue:
  assumes "list_all no_nl ls" and "no_nl p"
  shows "write_string (terminated ls @ p) outbuf_init q = (\<lparr>lineBuffer = p\<rparr>, q @ ls)"
  using assms by (simp add: write_string_split outbuf_init_def split_lines_terminated)

theorem worker_writes_reach_queue_witness:
  "write_string (terminated [''readyok'', ''bestmove e2e4''] @ ''info'') outbuf_init [] =
     (\<lparr>lineBuffer = ''info''\<rparr>, [''readyok'', ''bestmove e2e4''])"
  using worker_writes_reach_queue [of "[''readyok'', ''bestmove e2e4'']" "''info''" "[]"]
  by (simp add: no_nl_def)

text \<open>C5. A partial line is never delivered: characters written without a newline
  leave the output queue unchanged; they are only appended to \<open>lineBuffer\<close>.\<close>

theorem partial_line_not_observable:
  assumes "no_nl s"
  shows "write_string s b q = (b\<lparr>lineBuffer := lineBuffer b @ s\<rparr>, q)"
proof -
  have "split_lines (lineBuffer b) (s @ []) = split_lines (lineBuffer b @ s) []"
    using assms by (rule split_lines_no_nl_prefix)
  then show ?thesis by (simp add: write_string_split)
qed

theorem partial_line_not_observable_witness:
  "write_string ''bestmo'' \<lparr>lineBuffer = ''''\<rparr> [''readyok''] =
     (\<lparr>lineBuffer = ''bestmo''\<rparr>, [''readyok''])"
  using partial_line_not_observable [of "''bestmo''" "\<lparr>lineBuffer = ''''\<rparr>" "[''readyok'']"]
  by (simp add: no_nl_def)

section \<open>Timed reads\<close>

text \<open>C6. \<open>nativeReadLine\<close> returns no line no earlier than its timeout: if a caller
  enters the read at some state and its read ends, with no line, at a later state
  (no other end of its read in between), then at least 5000 ms of the clock have
  passed between the two.\<close>

theorem read_absent_not_before_deadline:
  assumes r: "runs E s (EvReadBegin i # es @ [EvReadEnd i]) t"
    and nr: "EvReadEnd i \<notin> set es" and res: "last (results t) = (i, None)"
  shows "now s + read_timeout_ms \<le> now t"
proof -
  from r obtain s1 where st1: "sys_step E s (EvReadBegin i) s1"
      and r1: "runs E s1 (es @ [EvReadEnd i]) t"
    by (auto elim: runs_consE)
  from st1 have w1: "callers s1 i = CWaiting (now s + read_timeout_ms)"
    by (auto elim: step_read_beginE)
  from r1 obtain s2 where r2: "runs E s1 es s2" and r3: "runs E s2 [EvReadEnd i] t"
    using runs_appendE by blast
  from r2 nr w1 have w2: "callers s2 i = CWaiting (now s + read_timeout_ms)"
    by (simp add: runs_keep_waiting)
  from r3 have st3: "sys_step E s2 (EvReadEnd i) t"
    by (auto elim: runs_consE runs.cases)
  from read_end_None [OF st3 res] obtain d where
    "callers s2 i = CWaiting d" "d \<le> now s2" "now t = now s2"
    by blast
  with w2 show ?thesis by simp
qed

theorem read_absent_not_before_deadline_witness:
  "\<exists>t. runs echo_engine (snd (nativeInit NoFault (sys0 :: echo_st sys)))
         (EvReadBegin 0 # replicate read_timeout_ms EvTick @ [EvReadEnd 0]) t \<and>
       EvReadEnd 0 \<notin> set (replicate read_timeout_ms EvTick) \<and> last (results t) = (0, None) \<and>
       now (snd (nativeInit NoFault (sys0 :: echo_st sys))) + read_timeout_ms \<le> now t"
proof -
  obtain t where r: "runs echo_engine sys0 silent_events t" and res: "results t = [(0, None)]"
    using silent_reachable by blast
  from r obtain ta where st: "sys_step echo_engine sys0 (EvInit NoFault) ta"
      and r0: "runs echo_engine ta (EvReadBegin 0 # replicate read_timeout_ms EvTick @ [EvReadEnd 0]) t"
    unfolding silent_events_def by (auto elim: runs_consE)
  from st have "ta = snd (nativeInit NoFault sys0)" by (auto elim: step_initE)
  with r0 have r': "runs echo_engine (snd (nativeInit NoFault sys0))
         (EvReadBegin 0 # replicate read_timeout_ms EvTick @ [EvReadEnd 0]) t"
    by simp
  have nr: "EvReadEnd 0 \<notin> set (replicate read_timeout_ms EvTick)" by simp
  from res have l: "last (results t) = (0, None)" by simp
  show ?thesis
    using r' nr l read_absent_not_before_deadline [OF r' nr l] by blast
qed

text \<open>C7. \<open>nativeReadLine\<close> never blocks a caller indefinitely: from any state in which
  a caller waits with deadline \<open>d\<close>, letting the clock run to \<open>d\<close> is enough for
  the read to end, whatever the engine does, and it ends with one returned value.\<close>

theorem read_returns_by_deadline:
  assumes "callers s i = CWaiting d"
  shows "\<exists>t r. runs E s (replicate (d - now s) EvTick @ [EvReadEnd i]) t \<and>
                callers t i = CIdle \<and> results t = results s @ [(i, r)]"
proof -
  let ?s' = "s\<lparr>now := now s + (d - now s)\<rparr>"
  have r1: "runs E s (replicate (d - now s) EvTick) ?s'" by (rule runs_ticks)
  have "callers ?s' i = CWaiting d" "d \<le> now ?s'" using assms by simp_all
  then obtain t r where "sys_step E ?s' (EvReadEnd i) t" "callers t i = CIdle"
      "results t = results ?s' @ [(i, r)]"
    using read_end_enabled by blast
  with r1 show ?thesis by (auto intro: runs_snoc)
qed

theorem read_returns_by_deadline_witness:
  "callers ((sys0 :: stub_pc sys)\<lparr>callers := (\<lambda>_. CIdle)(0 := CWaiting 3)\<rparr>) 0 = CWaiting 3 \<and>
   (\<exists>t r. runs stockfish_stub ((sys0 :: stub_pc sys)\<lparr>callers := (\<lambda>_. CIdle)(0 := CWaiting 3)\<rparr>)
            (replicate (3 - now ((sys0 :: stub_pc sys)\<lparr>callers := (\<lambda>_. CIdle)(0 := CWaiting 3)\<rparr>)) EvTick @ [EvReadEnd 0]) t \<and>
          callers t 0 = CIdle \<and>
          results t = results ((sys0 :: stub_pc sys)\<lparr>callers := (\<lambda>_. CIdle)(0 := CWaiting 3)\<rparr>) @ [(0, r)])"
proof -
  have h: "callers ((sys0 :: stub_pc sys)\<lparr>callers := (\<lambda>_. CIdle)(0 := CWaiting 3)\<rparr>) 0 = CWaiting 3" by simp
  show ?thesis by (rule conjI [OF h read_returns_by_deadline [OF h]])
qed

section \<open>Worker-side blocking\<close>

text \<open>C8. The worker's read suspends exactly when no input is available: a worker
  thread whose engine asks for a character, with a buffer installed under
  \<open>std::cin\<close>, reads a character when the stream readable through \<open>std::cin\<close>
  (the rest of the get area and the queued lines) is not empty, and otherwise
  blocks inside that buffer's \<open>underflow\<close>, changing nothing else.\<close>

theorem worker_read_blocks_iff_no_input:
  assumes "i < length (threads s)" and "threads s ! i = TLoop w"
    and "eng_step E w = WRead k" and "cinBuf s = Some p"
  shows "((\<exists>c t. thread_step E i s = Some (TIn c, t)) \<longleftrightarrow> cin_stream s \<noteq> []) \<and>
    (thread_step E i s = Some (TNone, s\<lparr>threads := (threads s)[i := TReadWait w p]\<rparr>) \<longleftrightarrow>
       cin_stream s = [])"
proof -
  have e: "sbumpc (inHeap s ! p) (inputQueue s) = None \<longleftrightarrow> cin_stream s = []"
    using assms by (simp add: sbumpc_None_iff cin_stream_def)
  show ?thesis
  proof (cases "sbumpc (inHeap s ! p) (inputQueue s)")
    case None
    with assms e show ?thesis by (simp add: thread_step_def)
  next
    case (Some r)
    with assms e show ?thesis by (auto simp: thread_step_def split: prod.splits)
  qed
qed

theorem worker_read_blocks_iff_no_input_witness:
  "thread_step echo_engine 0 ((bridge0 :: echo_st bridge)\<lparr>inHeap := [inbuf_init], cinBuf := Some 0,
        threads := [TLoop (EReading [])]\<rparr>) =
     Some (TNone, (bridge0 :: echo_st bridge)\<lparr>inHeap := [inbuf_init], cinBuf := Some 0,
        threads := [TReadWait (EReading []) 0]\<rparr>) \<and>
   cin_stream ((bridge0 :: echo_st bridge)\<lparr>inHeap := [inbuf_init], cinBuf := Some 0,
        threads := [TLoop (EReading [])]\<rparr>) = []"
proof -
  let ?s = "(bridge0 :: echo_st bridge)\<lparr>inHeap := [inbuf_init], cinBuf := Some 0,
        threads := [TLoop (EReading [])]\<rparr>"
  have h: "0 < length (threads ?s)" "threads ?s ! 0 = TLoop (EReading [])"
      "eng_step echo_engine (EReading []) = WRead (echo_read [])" "cinBuf ?s = Some 0"
    by (simp_all add: echo_engine_def)
  have "cin_stream ?s = []" by (simp add: cin_stream_def in_stream_def inbuf_init_def bridge0_def)
  with worker_read_blocks_iff_no_input [OF h] show ?thesis by simp
qed

section \<open>Facade operations\<close>

text \<open>C9. A failed \<open>nativeInit\<close> reports false and launches no worker thread; a
  successful one reports true and launches exactly one.\<close>

theorem nativeInit_result:
  "fst (nativeInit f s) = (f = NoFault) \<and>
   threads (snd (nativeInit f s)) = threads s @ (if f = NoFault then [TStart] else [])"
  by (cases f) (simp_all add: nativeInit_def init_body_cases)

section \<open>The spec's scenarios\<close>

text \<open>C10. No command, no answer: in every run of the echo engine with at most one
  \<open>nativeInit\<close> in which no line was ever pushed on the input queue, every
  \<open>nativeReadLine\<close> has returned no line (each of them at its timeout, by C6).\<close>

lemma echo_idle_thread_step:
  assumes "thread_step echo_engine i s = Some (io, s')"
    and "list_all echo_idle (threads s)"
  shows "(\<exists>c. io = TIn c) \<or> (io = TNone \<and> echo_idle (threads s' ! i) \<and>
      s' = s\<lparr>threads := (threads s)[i := threads s' ! i]\<rparr>)"
proof -
  from assms have i: "i < length (threads s)"
    by (simp add: thread_step_def split: if_splits)
  with assms(2) have "echo_idle (threads s ! i)"
    by (simp add: list_all_length)
  with assms(1) i show ?thesis
    by (cases "threads s ! i")
       (auto simp: thread_step_def echo_engine_def split: option.splits prod.splits)
qed

lemma consumed_grows: "sys_step E s e t \<Longrightarrow> \<exists>cs. consumed t = consumed s @ cs"
proof (induction rule: sys_step.induct)
  case (init s f)
  then show ?case by (cases f) (simp_all add: nativeInit_def init_body_cases)
next
  case (thread i s io s')
  then show ?case
    using thread_step_io [OF thread.hyps] by (auto simp: note_io_def split: tio.splits)
qed (simp_all add: nativeSendCommand_def nativeDestroy_def nativeReadLine_result_def
       split: if_splits list.splits)

lemma echo_quiet_step:
  assumes "sys_step echo_engine s e t" and "echo_quiet s" and "consumed t = []"
  shows "echo_quiet t"
  using assms
proof (induction rule: sys_step.induct)
  case (init s f)
  then show ?case by (cases f) (simp_all add: echo_quiet_def nativeInit_def init_body_cases)
next
  case (read_wake s i d l q r s')
  then show ?case by (simp add: echo_quiet_def)
next
  case (thread i s io s')
  from thread.prems have "list_all echo_idle (threads s)"
    by (simp add: echo_quiet_def)
  with thread.hyps have "(\<exists>c. io = TIn c) \<or>
      (io = TNone \<and> echo_idle (threads s' ! i) \<and>
      s' = s\<lparr>threads := (threads s)[i := threads s' ! i]\<rparr>)"
    by (rule echo_idle_thread_step)
  then consider (rd) c where "io = TIn c"
    | (idle) th where "io = TNone" "echo_idle th" "s' = s\<lparr>threads := (threads s)[i := th]\<rparr>"
    by blast
  then show ?case
    by cases (use thread.prems in \<open>auto simp: echo_quiet_def note_io_def intro: list_all_update\<close>)
qed (auto simp: echo_quiet_def nativeSendCommand_def nativeDestroy_def nativeReadLine_result_def)

lemma echo_quiet_runs:
  assumes "runs echo_engine s es t" and "echo_quiet s" and "consumed t = []"
  shows "echo_quiet t"
  using assms
proof (induction rule: runs.induct)
  case (runs_nil s)
  then show ?case by simp
next
  case (runs_cons s e t es u)
  obtain cs where "consumed u = consumed t @ cs"
    using runs_cons.hyps(2) by (induction rule: runs.induct) (auto dest: consumed_grows)
  with runs_cons.prems have "consumed t = []" by simp
  moreover obtain cs' where "consumed t = consumed s @ cs'"
    using consumed_grows [OF runs_cons.hyps(1)] by blast
  ultimately show ?case
    using runs_cons echo_quiet_step [OF runs_cons.hyps(1)] by simp
qed

theorem echo_silent_without_input:
  assumes "runs echo_engine sys0 es s" and "length (filter is_init es) \<le> 1" and "sent s = []"
  shows "\<forall>x\<in>set (results s). snd x = None"
proof -
  have "consumed s @ cin_stream s = terminated (sent s)"
    using reachable_inv [OF assms(1,2)] by (simp add: sys_inv_def)
  with assms(3) have "consumed s = []" by simp
  moreover have "echo_quiet (sys0 :: echo_st sys)" by (simp add: echo_quiet_def sys0_def)
  ultimately have "echo_quiet s" using assms(1) by (blast intro: echo_quiet_runs)
  then show ?thesis by (simp add: echo_quiet_def list_all_iff)
qed

theorem echo_silent_without_input_witness:
  "\<exists>s. runs echo_engine sys0 silent_events s \<and> length (filter is_init silent_events) \<le> 1 \<and>
       sent s = [] \<and> (\<forall>x\<in>set (results s). snd x = None)"
proof -
  obtain s where r: "runs echo_engine sys0 silent_events s" and e: "sent s = []"
    using silent_reachable by blast
  have n: "length (filter is_init silent_events) \<le> 1" by (simp add: silent_events_def)
  show ?thesis using r n e echo_silent_without_input [OF r n e] by blast
qed

text \<open>C11. With the stub engine the repository links, nothing is ever written to
  \<open>std::cout\<close>, the output queue stays empty and every \<open>nativeReadLine\<close> returns
  no line, whatever the callers do.\<close>

theorem stub_never_answers:
  assumes "runs stockfish_stub sys0 es s"
  shows "outputQueue s = [] \<and> written s = [] \<and> (\<forall>x\<in>set (results s). snd x = None)"
  using assms by (rule stub_runs_silent) (simp_all add: sys0_def)

theorem stub_never_answers_witness:
  "\<exists>s. runs stockfish_stub sys0 [EvInit NoFault, EvSend ''uci'', EvThread 0, EvThread 0] s \<and>
       outputQueue s = [] \<and> written s = [] \<and> (\<forall>x\<in>set (results s). snd x = None)"
proof -
  have "\<exists>s. exec_run stockfish_stub sys0 [EvInit NoFault, EvSend ''uci'', EvThread 0, EvThread 0] = Some s"
    by (simp add: stockfish_stub_def exec_simps)
  then obtain s where r: "runs stockfish_stub sys0 [EvInit NoFault, EvSend ''uci'', EvThread 0, EvThread 0] s"
    by (auto simp: runs_exec_run)
  show ?thesis using r stub_never_answers [OF r] by blast
qed

section \<open>What the code does beyond the spec\<close>

text \<open>C12. A second \<open>nativeInit\<close> loses input: in any state, the stream readable
  through \<open>std::cin\<close> before a successful \<open>nativeInit\<close> is the unread rest of the
  old \<open>InputBuffer\<close>'s get area followed by the stream readable after it. That rest
  stays in the old buffer, which \<open>std::cin\<close> no longer reads, so a line the worker
  had begun to read is cut short.\<close>

theorem reinit_strands_partial_input:
  assumes "cinBuf s = Some p" and "p < length (inHeap s)"
  shows "cin_stream s =
           drop (gnext (inHeap s ! p)) (currentLine (inHeap s ! p)) @ cin_stream (snd (nativeInit NoFault s)) \<and>
         inHeap (snd (nativeInit NoFault s)) ! p = inHeap s ! p \<and>
         cinBuf (snd (nativeInit NoFault s)) \<noteq> Some p"
  using assms
  by (simp add: nativeInit_def init_body_cases cin_stream_def in_stream_def inbuf_init_def nth_append)

theorem reinit_strands_partial_input_witness:
  "cin_stream ((bridge0 :: echo_st bridge)\<lparr>inHeap := [\<lparr>currentLine = ''go'' @ [NL], gnext = 1\<rparr>],
      cinBuf := Some 0, inputQueue := [''x'']\<rparr>) =
     ''o'' @ [NL] @ cin_stream (snd (nativeInit NoFault ((bridge0 :: echo_st bridge)\<lparr>inHeap :=
       [\<lparr>currentLine = ''go'' @ [NL], gnext = 1\<rparr>], cinBuf := Some 0, inputQueue := [''x'']\<rparr>)))"
proof -
  let ?s = "(bridge0 :: echo_st bridge)\<lparr>inHeap := [\<lparr>currentLine = ''go'' @ [NL], gnext = 1\<rparr>],
      cinBuf := Some 0, inputQueue := [''x'']\<rparr>"
  have h: "cinBuf ?s = Some 0" "0 < length (inHeap ?s)" by simp_all
  from reinit_strands_partial_input [OF h] show ?thesis by simp
qed

text \<open>C13. \<open>nativeReadLine\<close> returns a line only up to its first NUL byte
  (\<open>NewStringUTF(line.c_str())\<close>): a worker line holding a NUL is dequeued whole but
  returned shortened.\<close>

theorem readline_truncates_at_nul:
  assumes "outputQueue s = l # q" and "NUL \<in> set l"
  shows "nativeReadLine_result True s = (Some (cstr l), s\<lparr>outputQueue := q\<rparr>) \<and> cstr l \<noteq> l"
proof -
  have "NUL \<notin> set (cstr l)" by (rule cstr_no_nul_result)
  with assms show ?thesis by (auto simp: nativeReadLine_result_def)
qed

theorem readline_truncates_at_nul_witness:
  "nativeReadLine_result True ((bridge0 :: unit bridge)\<lparr>outputQueue := [''info'' @ [NUL] @ ''x'']\<rparr>) =
     (Some ''info'', (bridge0 :: unit bridge)\<lparr>outputQueue := []\<rparr>)"
proof -
  let ?s = "(bridge0 :: unit bridge)\<lparr>outputQueue := [''info'' @ [NUL] @ ''x'']\<rparr>"
  have h: "outputQueue ?s = (''info'' @ [NUL] @ ''x'') # []" "NUL \<in> set (''info'' @ [NUL] @ ''x'')"
    by simp_all
  from readline_truncates_at_nul [OF h] show ?thesis by (simp add: cstr_def)
qed

text \<open>C14. A command with an embedded newline is not one line: \<open>nativeSendCommand\<close>
  queues it as one entry, and the worker reads that entry as two lines, so the bridge
  does not enforce the one-line-per-command interface.\<close>

theorem command_with_newline_splits:
  assumes "no_nl a" and "no_nl b" and "NUL \<notin> set a" and "NUL \<notin> set b"
  shows "inputQueue (nativeSendCommand (a @ NL # b) (bridge0 :: 'w bridge)) = [a @ NL # b] \<and>
    (\<exists>b' q'. getlines 2 inbuf_init (inputQueue (nativeSendCommand (a @ NL # b) (bridge0 :: 'w bridge))) =
           Some ([a, b], b', q'))"
proof -
  have q: "inputQueue (nativeSendCommand (a @ NL # b) (bridge0 :: 'w bridge)) = [a @ NL # b]"
    using assms by (simp add: nativeSendCommand_def bridge0_def)
  have "in_stream inbuf_init [a @ NL # b] = terminated [a, b] @ []"
    by (simp add: in_stream_def inbuf_init_def)
  with assms obtain b' q' where "getlines (length [a, b]) inbuf_init [a @ NL # b] = Some ([a, b], b', q')"
    using getlines_stream [of "[a, b]" inbuf_init "[a @ NL # b]" "[]"] by auto
  with q show ?thesis by (simp add: numeral_2_eq_2)
qed

theorem command_with_newline_splits_witness:
  "inputQueue (nativeSendCommand (''position startpos'' @ NL # ''go'') (bridge0 :: unit bridge)) =
     [''position startpos'' @ NL # ''go''] \<and>
   (\<exists>b' q'. getlines 2 inbuf_init
      (inputQueue (nativeSendCommand (''position startpos'' @ NL # ''go'') (bridge0 :: unit bridge))) =
      Some ([''position startpos'', ''go''], b', q'))"
proof -
  have h: "no_nl ''position startpos''" "no_nl ''go''" "NUL \<notin> set ''position startpos''"
      "NUL \<notin> set ''go''"
    by (simp_all add: no_nl_def)
  show ?thesis by (rule command_with_newline_splits [OF h])
qed

section \<open>Lifecycle\<close>

text \<open>C15. The facade refines the spec's lifecycle: wherever the spec's state machine
  (Uninitialized, Running, ShutdownRequested) prescribes a transition, the phase of
  the process state after the entry point is the one the spec prescribes.\<close>

theorem lifecycle_refines_spec:
  assumes "lifecycle_spec (phase_of s) op = Some ph"
  shows "phase_of (facade_op op s) = ph"
  using assms
  by (cases op; cases "phase_of s")
     (auto simp: phase_of_def facade_op_def nativeInit_def init_body_cases nativeSendCommand_def
        nativeReadLine_result_def nativeDestroy_def split: if_splits init_fault.splits list.splits)

theorem lifecycle_refines_spec_witness:
  "lifecycle_spec (phase_of (bridge0 :: unit bridge)) (FInit NoFault) = Some Running \<and>
   phase_of (facade_op (FInit NoFault) (bridge0 :: unit bridge)) = Running"
proof -
  have h: "lifecycle_spec (phase_of (bridge0 :: unit bridge)) (FInit NoFault) = Some Running"
    by (simp add: phase_of_def bridge0_def)
  show ?thesis using h lifecycle_refines_spec [OF h] by blast
qed

text \<open>C16. A \<open>nativeInit\<close> that fails when the thread is created, after a
  destroy, reports failure but leaves the running flag set and \<open>std::cin\<close> and
  \<open>std::cout\<close> redirected to new buffers, so the bridge is back in the Running
  phase with no new worker.\<close>

theorem failed_init_sets_running:
  assumes "phase_of s = ShutdownRequested"
  shows "fst (nativeInit ThreadFails s) = False \<and> phase_of (snd (nativeInit ThreadFails s)) = Running \<and>
         threads (snd (nativeInit ThreadFails s)) = threads s \<and>
         cinBuf (snd (nativeInit ThreadFails s)) = Some (length (inHeap s))"
  using assms by (auto simp: nativeInit_def init_body_cases phase_of_def split: if_splits)

theorem failed_init_sets_running_witness:
  "phase_of (nativeDestroy (snd (nativeInit NoFault (bridge0 :: unit bridge)))) = ShutdownRequested \<and>
   fst (nativeInit ThreadFails (nativeDestroy (snd (nativeInit NoFault (bridge0 :: unit bridge))))) = False \<and>
   phase_of (snd (nativeInit ThreadFails (nativeDestroy (snd (nativeInit NoFault (bridge0 :: unit bridge)))))) = Running"
proof -
  have h: "phase_of (nativeDestroy (snd (nativeInit NoFault (bridge0 :: unit bridge)))) = ShutdownRequested"
    by (simp add: phase_of_def nativeDestroy_def nativeInit_def init_body_cases bridge0_def)
  show ?thesis using h failed_init_sets_running [OF h] by blast
qed

section \<open>End to end\<close>

text \<open>C17. A whole session with the echo engine: after a successful init and the
  worker's start, for any list of commands (each a line with no NUL byte, none of
  them \<open>quit\<close>) there is a schedule in which each command is sent, read by the
  worker, answered, and read back by the caller; the caller's reads return exactly
  the answers in order, and the worker has read exactly the commands in order, each
  with its newline.\<close>

theorem echo_session_answers_in_order:
  assumes "list_all (\<lambda>l. no_nl l \<and> NUL \<notin> set l \<and> l \<noteq> ''quit'') ls"
  shows "\<exists>t. runs echo_engine sys0 ([EvInit NoFault, EvThread 0] @ concat (map serve_events ls)) t \<and>
           results t = map (\<lambda>l. (0, Some (echo_reply l))) ls \<and> consumed t = terminated ls"
proof -
  obtain s where r0: "runs echo_engine sys0 [EvInit NoFault, EvThread 0] s" and s: "echo_serving s"
      "results s = []" "sent s = []"
    using serving_after_start by blast
  obtain t where r1: "runs echo_engine s (concat (map serve_events ls)) t" and t: "echo_serving t"
      "results t = results s @ map (\<lambda>l. (0, Some (echo_reply l))) ls" "sent t = sent s @ ls"
    using serve_all [OF s(1) assms] by blast
  have r: "runs echo_engine sys0 ([EvInit NoFault, EvThread 0] @ concat (map serve_events ls)) t"
    using r0 r1 by (rule runs_append)
  have n: "length (filter is_init ([EvInit NoFault, EvThread 0] @ concat (map serve_events ls))) \<le> 1"
    by (simp add: serve_events_no_init)
  have "sys_inv t" using r n by (rule reachable_inv)
  then have "consumed t @ cin_stream t = terminated (sent t)"
    unfolding sys_inv_def by blast
  moreover have "cin_stream t = []" using t(1) unfolding echo_serving_def by blast
  ultimately have "consumed t = terminated ls" using t(3) s(3) by simp
  with r t(2) s(2) show ?thesis by auto
qed

theorem echo_session_answers_in_order_witness:
  "list_all (\<lambda>l. no_nl l \<and> NUL \<notin> set l \<and> l \<noteq> ''quit'') [''uci'', ''ping'', ''isready''] \<and>
   (\<exists>t. runs echo_engine sys0
          ([EvInit NoFault, EvThread 0] @ concat (map serve_events [''uci'', ''ping'', ''isready''])) t \<and>
        results t = [(0, Some ''uci''), (0, Some ''pong''), (0, Some ''isready'')] \<and>
        consumed t = terminated [''uci'', ''ping'', ''isready''])"
proof
  show h: "list_all (\<lambda>l. no_nl l \<and> NUL \<notin> set l \<and> l \<noteq> ''quit'') [''uci'', ''ping'', ''isready'']"
    by (simp add: no_nl_def)
  have m: "map (\<lambda>l. (0::nat, Some (echo_reply l))) [''uci'', ''ping'', ''isready''] =
      [(0, Some ''uci''), (0, Some ''pong''), (0, Some ''isready'')]"
    by (simp add: echo_reply_def)
  obtain t where "runs echo_engine sys0
          ([EvInit NoFault, EvThread 0] @ concat (map serve_events [''uci'', ''ping'', ''isready''])) t"
      "results t = map (\<lambda>l. (0, Some (echo_reply l))) [''uci'', ''ping'', ''isready'']"
      "consumed t = terminated [''uci'', ''ping'', ''isready'']"
    using echo_session_answers_in_order [OF h] by blast
  then show "\<exists>t. runs echo_engine sys0
          ([EvInit NoFault, EvThread 0] @ concat (map serve_events [''uci'', ''ping'', ''isready''])) t \<and>
        results t = [(0, Some ''uci''), (0, Some ''pong''), (0, Some ''isready'')] \<and>
        consumed t = terminated [''uci'', ''ping'', ''isready'']"
    unfolding m by blast
qed

section \<open>The Java side\<close>

lemma send_same_cstr:
  assumes "sys_step E s (EvSend a) u" and "cstr b = cstr a"
  shows "sys_step E s (EvSend b) u"
proof -
  from assms(1) have u: "u = (nativeSendCommand a s)\<lparr>sent := sent s @ [cstr a]\<rparr>"
    by (auto elim: step_sendE)
  have "(nativeSendCommand b s)\<lparr>sent := sent s @ [cstr b]\<rparr> = u"
    using assms(2) by (simp add: u nativeSendCommand_def)
  then show ?thesis using sys_step.send [of E s b] by simp
qed

lemma java_serve_runs:
  assumes "runs E s (serve_events (mutf8 js)) t"
  shows "runs E s (java_serve_events js) t"
proof -
  from assms obtain u where st: "sys_step E s (EvSend (mutf8 js)) u"
      and r: "runs E u (tl (serve_events (mutf8 js))) t"
    by (auto simp: serve_events_def elim: runs_consE)
  have "cstr (GetStringUTFChars js) = cstr (mutf8 js)"
    by (simp add: GetStringUTFChars_cstr mutf8_no_nul)
  with st have "sys_step E s (EvSend (GetStringUTFChars js)) u" by (rule send_same_cstr)
  from this r show ?thesis unfolding java_serve_events_def by (rule runs.runs_cons)
qed

lemma java_serve_all:
  "runs E s (concat (map serve_events (map mutf8 jss))) t \<Longrightarrow>
   runs E s (concat (map java_serve_events jss)) t"
proof (induction jss arbitrary: s)
  case Nil
  then show ?case by simp
next
  case (Cons js jss)
  then obtain u where "runs E s (serve_events (mutf8 js)) u"
      and "runs E u (concat (map serve_events (map mutf8 jss))) t"
    using runs_appendE by fastforce
  with Cons.IH show ?case by (auto intro: runs_append java_serve_runs)
qed

text \<open>C18. A Java command reaches the worker intact: \<open>nativeSendCommand\<close> queues
  exactly the modified UTF-8 bytes of the Java string, with nothing cut, even when the
  string holds U+0000 (encoded as two non-zero bytes, so \<open>std::string(cmd)\<close> never
  stops early), and those bytes convert back to the same Java string.\<close>
theorem java_command_delivered_intact:
  "Java_nativeSendCommand js s = s\<lparr>inputQueue := inputQueue s @ [mutf8 js]\<rparr> \<and>
   NewStringUTF (mutf8 js) = Some js"
  by (simp add: Java_nativeSendCommand_push NewStringUTF_mutf8)

text \<open>C19. \<open>nativeReadLine\<close> returns a Java string only by dequeuing the front
  line, and the string it returns is exactly the one whose modified UTF-8 encoding is
  that line up to its first NUL: decoding is the inverse of encoding.\<close>
theorem java_readline_exact:
  assumes "Java_nativeReadLine_result received s = (JStr js, s')"
  shows "\<exists>l q. outputQueue s = l # q \<and> s' = s\<lparr>outputQueue := q\<rparr> \<and> mutf8 js = cstr l"
proof -
  obtain r where r: "nativeReadLine_result received s = (r, s')" and j: "jreturn r = JStr js"
    using assms by (auto simp: Java_nativeReadLine_result_def split: prod.splits)
  then obtain l where l: "r = Some l" "NewStringUTF l = Some js"
    by (auto simp: jreturn_cases)
  from r l obtain l0 q where "outputQueue s = l0 # q" "s' = s\<lparr>outputQueue := q\<rparr>" "l = cstr l0"
    by (auto simp: nativeReadLine_result_def split: if_splits list.splits)
  moreover have "mutf8 js = cstr l" using l(2) by (rule NewStringUTF_exact)
  ultimately show ?thesis by auto
qed

theorem java_readline_exact_witness:
  "Java_nativeReadLine_result True ((bridge0 :: unit bridge)\<lparr>outputQueue := [''ok'']\<rparr>) =
     (JStr [0x6F, 0x6B], bridge0) \<and>
   (\<exists>l q. outputQueue ((bridge0 :: unit bridge)\<lparr>outputQueue := [''ok'']\<rparr>) = l # q \<and>
      (bridge0 :: unit bridge) = ((bridge0 :: unit bridge)\<lparr>outputQueue := [''ok'']\<rparr>)\<lparr>outputQueue := q\<rparr> \<and>
      mutf8 [0x6F, 0x6B] = cstr l)"
proof
  show h: "Java_nativeReadLine_result True ((bridge0 :: unit bridge)\<lparr>outputQueue := [''ok'']\<rparr>) =
     (JStr [0x6F, 0x6B], bridge0)"
    by (simp add: Java_nativeReadLine_result_def nativeReadLine_result_def jreturn_def
        NewStringUTF_def cstr_def mutf8_cont_def bridge0_def)
  from java_readline_exact [OF h] show "\<exists>l q. outputQueue ((bridge0 :: unit bridge)\<lparr>outputQueue := [''ok'']\<rparr>) = l # q \<and>
      (bridge0 :: unit bridge) = ((bridge0 :: unit bridge)\<lparr>outputQueue := [''ok'']\<rparr>)\<lparr>outputQueue := q\<rparr> \<and>
      mutf8 [0x6F, 0x6B] = cstr l" .
qed

text \<open>C20. The bridge hands the engine's raw bytes to \<open>NewStringUTF\<close>: a line that
  is not modified UTF-8 (for instance a Latin-1 byte 0xE9) is dequeued, and the
  Java string returned for it is not defined by the JNI.\<close>
theorem readline_non_mutf8_undefined:
  assumes "outputQueue s = l # q" and "mutf8_decode (cstr l) = None"
  shows "Java_nativeReadLine_result True s = (JUndefined (cstr l), s\<lparr>outputQueue := q\<rparr>)"
  using assms by (simp add: Java_nativeReadLine_result_def nativeReadLine_result_def jreturn_def NewStringUTF_def)

theorem readline_non_mutf8_undefined_witness:
  "outputQueue ((bridge0 :: unit bridge)\<lparr>outputQueue := [[CHR 0xE9]]\<rparr>) = [CHR 0xE9] # [] \<and>
   mutf8_decode (cstr [CHR 0xE9]) = None \<and>
   Java_nativeReadLine_result True ((bridge0 :: unit bridge)\<lparr>outputQueue := [[CHR 0xE9]]\<rparr>) =
     (JUndefined [CHR 0xE9], bridge0)"
proof -
  have h1: "outputQueue ((bridge0 :: unit bridge)\<lparr>outputQueue := [[CHR 0xE9]]\<rparr>) = [CHR 0xE9] # []"
    by simp
  have h2: "mutf8_decode (cstr [CHR 0xE9]) = None" by (simp add: cstr_def)
  have "Java_nativeReadLine_result True ((bridge0 :: unit bridge)\<lparr>outputQueue := [[CHR 0xE9]]\<rparr>) =
     (JUndefined (cstr [CHR 0xE9]), ((bridge0 :: unit bridge)\<lparr>outputQueue := [[CHR 0xE9]]\<rparr>)\<lparr>outputQueue := []\<rparr>)"
    by (rule readline_non_mutf8_undefined [OF h1 h2])
  with h1 h2 show ?thesis by (simp add: cstr_def bridge0_def)
qed

text \<open>C21. End to end at the Java level: after init and the worker's start, for
  any Java strings without U+000A, other than \<open>quit\<close> and \<open>ping\<close>, there is a
  schedule in which each is sent with \<open>nativeSendCommand\<close>, echoed by the engine
  and read back with \<open>nativeReadLine\<close>, and the caller receives exactly the same
  Java strings in order, U+0000 and non-ASCII characters included.\<close>
theorem java_echo_session:
  assumes "list_all (\<lambda>js. 10 \<notin> set js \<and> mutf8 js \<noteq> ''quit'' \<and> mutf8 js \<noteq> ''ping'') jss"
  shows "\<exists>t. runs echo_engine sys0 ([EvInit NoFault, EvThread 0] @ concat (map java_serve_events jss)) t \<and>
           map (jreturn \<circ> snd) (results t) = map JStr jss"
proof -
  obtain s where r0: "runs echo_engine sys0 [EvInit NoFault, EvThread 0] s" and s: "echo_serving s"
      "results s = []"
    using serving_after_start by blast
  have ok: "list_all (\<lambda>l. no_nl l \<and> NUL \<notin> set l \<and> l \<noteq> ''quit'') (map mutf8 jss)"
    using assms by (simp add: list_all_iff no_nl_def mutf8_NL_iff mutf8_no_nul)
  obtain t where r1: "runs echo_engine s (concat (map serve_events (map mutf8 jss))) t"
      and t: "results t = results s @ map (\<lambda>l. (0, Some (echo_reply l))) (map mutf8 jss)"
    using serve_all [OF s(1) ok] by blast
  have "runs echo_engine sys0 ([EvInit NoFault, EvThread 0] @ concat (map java_serve_events jss)) t"
    using r0 java_serve_all [OF r1] by (rule runs_append)
  moreover have "map (jreturn \<circ> snd) (results t) = map JStr jss"
    using assms by (simp add: t s(2) list_all_iff echo_reply_def jreturn_mutf8)
  ultimately show ?thesis by blast
qed

theorem java_echo_session_witness:
  "list_all (\<lambda>js. 10 \<notin> set js \<and> mutf8 js \<noteq> ''quit'' \<and> mutf8 js \<noteq> ''ping'') [[0x41], [0, 0x20AC]] \<and>
   (\<exists>t. runs echo_engine sys0 ([EvInit NoFault, EvThread 0] @ concat (map java_serve_events [[0x41], [0, 0x20AC]])) t \<and>
        map (jreturn \<circ> snd) (results t) = [JStr [0x41], JStr [0, 0x20AC]])"
proof
  show h: "list_all (\<lambda>js. 10 \<notin> set js \<and> mutf8 js \<noteq> ''quit'' \<and> mutf8 js \<noteq> ''ping'') [[0x41], [0, 0x20AC]]"
    by (simp add: mutf8_char_def)
  from java_echo_session [OF h] show "\<exists>t. runs echo_engine sys0 ([EvInit NoFault, EvThread 0] @ concat (map java_serve_events [[0x41], [0, 0x20AC]])) t \<and>
        map (jreturn \<circ> snd) (results t) = [JStr [0x41], JStr [0, 0x20AC]]"
    by simp
qed

section \<open>Lines and queues\<close>

text \<open>C22. Everything the bridge hands out is a Line: in every run from process start,
  with any engine and any number of \<open>nativeInit\<close> calls, failing ones included,
  no line on the output queue holds a newline, no line on the input queue holds a NUL,
  and every line \<open>nativeReadLine\<close> has returned holds neither.\<close>

theorem lines_are_typed:
  assumes "runs E sys0 es s"
  shows "list_all no_nl (outputQueue s) \<and> list_all (\<lambda>l. NUL \<notin> set l) (inputQueue s) \<and>
         list_all (\<lambda>r. pred_option (\<lambda>l. no_nl l \<and> NUL \<notin> set l) (snd r)) (results s)"
  using runs_keep_typed [OF assms lines_typed_sys0] by (simp add: lines_typed_def)

theorem lines_are_typed_witness:
  "\<exists>s. runs echo_engine sys0 ping_events s \<and>
       list_all no_nl (outputQueue s) \<and> list_all (\<lambda>l. NUL \<notin> set l) (inputQueue s) \<and>
       list_all (\<lambda>r. pred_option (\<lambda>l. no_nl l \<and> NUL \<notin> set l) (snd r)) (results s)"
proof -
  obtain s where r: "runs echo_engine sys0 ping_events s" using ping_reachable by blast
  with lines_are_typed [OF r] show ?thesis by blast
qed

text \<open>C23. The queues behave as the spec's Line Queue: every step of the system (an
  entry point, either half of a read, a worker's read through \<open>InputBuffer\<close> or
  write through \<open>OutputBuffer\<close>, a clock tick) leaves each queue unchanged, appends
  one line at its tail, or removes its head; nothing is inserted elsewhere, reordered
  or removed from the middle.\<close>

theorem queues_are_fifo:
  "sys_step E s e t \<Longrightarrow>
     queue_step (inputQueue s) (inputQueue t) \<and> queue_step (outputQueue s) (outputQueue t)"
proof (induction rule: sys_step.induct)
  case (init s f)
  then show ?case by (cases f) (simp_all add: queue_step_def nativeInit_def init_body_cases)
next
  case (thread i s io s')
  then show ?case using thread_queue_step [OF thread] by (simp add: note_io_def split: tio.splits)
qed (auto simp: queue_step_def nativeSendCommand_def nativeDestroy_def nativeReadLine_result_def)

theorem queues_are_fifo_witness:
  "sys_step (echo_engine) (sys0 :: echo_st sys) (EvSend ''go'')
     ((sys0 :: echo_st sys)\<lparr>inputQueue := [''go''], sent := [''go'']\<rparr>) \<and>
   queue_step [] [''go''] \<and> queue_step [] []"
proof -
  have st: "sys_step (echo_engine) (sys0 :: echo_st sys) (EvSend ''go'')
     ((sys0 :: echo_st sys)\<lparr>inputQueue := [''go''], sent := [''go'']\<rparr>)"
    using sys_step.send [of echo_engine "sys0 :: echo_st sys" "''go''"]
    by (simp add: nativeSendCommand_def sys0_def cstr_def)
  from queues_are_fifo [OF st] st show ?thesis by (simp add: sys0_def)
qed

section \<open>The worker's read path\<close>

text \<open>C24. \<open>std::getline\<close> through the \<open>InputBuffer\<close> is the reference line
  reader on the character stream the adapter stands for: when a newline is readable it
  returns the characters before it and leaves the stream after it, and it blocks exactly
  when no newline is readable (there is no end of file: \<open>underflow\<close> waits instead).\<close>

theorem getline_is_stream_reader:
  "map_option (\<lambda>(l, b', q'). (l, in_stream b' q')) (getline b q acc) =
   map_option (\<lambda>(l, r). (acc @ l, r)) (stream_getline (in_stream b q))"
proof (induction b q acc rule: getline.induct)
  case (1 b q acc)
  show ?case
  proof (cases "sbumpc b q")
    case None
    then have "getline b q acc = None" by (simp add: getline.simps [of b q acc])
    moreover have "in_stream b q = []" using None by (simp add: sbumpc_None_iff [symmetric])
    ultimately show ?thesis by simp
  next
    case (Some r)
    then obtain c b' q' where s: "sbumpc b q = Some (c, b', q')" by (cases r) auto
    then obtain x where x: "c = to_int_type x" "in_stream b q = x # in_stream b' q'"
      using sbumpc_Some_stream by blast
    show ?thesis
    proof (cases "x = NL")
      case True
      with s x show ?thesis
        by (simp add: getline.simps [of b q acc] to_int_type_not_eof)
    next
      case False
      with s x "1.IH" [OF s refl] show ?thesis
        by (simp add: getline.simps [of b q acc] to_int_type_not_eof char_of_to_int_type
            to_int_type_NL_iff option.map_comp comp_def case_prod_beta)
    qed
  qed
qed

section \<open>Shutdown and failed start, from any state\<close>

text \<open>C25. Shutdown from any idle state: whenever the echo engine's worker waits for a
  command with nothing to read, \<open>nativeDestroy\<close> clears the running flag and the
  worker, given six steps, reads exactly \<open>quit\<close> and its newline, leaves its loop
  and its thread returns.\<close>

theorem destroy_stops_idle_worker:
  assumes srv: "echo_serving s"
  shows "\<exists>t. runs echo_engine s (EvDestroy # replicate 6 (EvThread 0)) t \<and>
           threads t ! 0 = TDone \<and> \<not> engineRunning t \<and> consumed t = consumed s @ ''quit'' @ [NL]"
proof -
  define s1 where "s1 = (nativeDestroy s)\<lparr>sent := sent s @ [''quit'']\<rparr>"
  have st1: "sys_step echo_engine s EvDestroy s1" unfolding s1_def by (rule sys_step.destroy)
  obtain p where cb: "cinBuf s = Some p" and p: "p < length (inHeap s)"
    using srv by (auto simp: echo_serving_def wf_bridge_def)
  have "cin_stream s1 = cin_stream s @ ''quit'' @ [NL]"
    by (simp add: s1_def nativeDestroy_def cin_stream_def in_stream_def split: option.splits)
  then have "cin_stream s1 = ''quit'' @ [NL]" "0 < length (threads s1)"
      "threads s1 ! 0 = TLoop (EReading [])" "cinBuf s1 = Some p" "p < length (inHeap s1)"
    using srv cb p by (simp_all add: s1_def nativeDestroy_def echo_serving_def)
  from echo_quits [OF this(2,3,4,5,1)] obtain t where
    "runs echo_engine s1 (replicate 6 (EvThread 0)) t" "threads t ! 0 = TDone"
    "engineRunning t = engineRunning s1" "consumed t = consumed s1 @ ''quit'' @ [NL]"
    by blast
  with st1 show ?thesis by (auto simp: s1_def nativeDestroy_def intro: runs.runs_cons)
qed

theorem destroy_stops_idle_worker_witness:
  "\<exists>s t. runs echo_engine sys0 [EvInit NoFault, EvThread 0] s \<and> echo_serving s \<and>
     runs echo_engine s (EvDestroy # replicate 6 (EvThread 0)) t \<and>
     threads t ! 0 = TDone \<and> \<not> engineRunning t \<and> consumed t = consumed s @ ''quit'' @ [NL]"
proof -
  obtain s where r: "runs echo_engine sys0 [EvInit NoFault, EvThread 0] s" and srv: "echo_serving s"
    using serving_after_start by blast
  from destroy_stops_idle_worker [OF srv] r srv show ?thesis by blast
qed

text \<open>C26. The spec's failed-init scenario, over every schedule: after a
  \<open>nativeInit\<close> that throws at any point, and with no further init, no worker thread
  exists, so whatever the callers send nothing is ever read from the input queue or
  written to the output queue.\<close>

theorem failed_init_never_consumes:
  assumes "f \<noteq> NoFault" and "runs E sys0 (EvInit f # es) t" and "\<not> list_ex is_init es"
  shows "consumed t = [] \<and> written t = [] \<and> threads t = []"
proof -
  from assms(2) obtain s where st: "sys_step E sys0 (EvInit f) s" and r: "runs E s es t"
    by (auto elim: runs_consE)
  from st have "s = snd (nativeInit f sys0)" by (auto elim: step_initE)
  with assms(1) have "threads s = [] \<and> consumed s = [] \<and> written s = []"
    by (cases f) (simp_all add: nativeInit_def init_body_cases sys0_def)
  with no_thread_runs_idle [OF r assms(3)] show ?thesis by simp
qed

theorem failed_init_never_consumes_witness:
  "AllocInputFails \<noteq> NoFault \<and> \<not> list_ex is_init [EvSend ''uci'', EvTick] \<and>
   (\<exists>t. runs echo_engine sys0 [EvInit AllocInputFails, EvSend ''uci'', EvTick] t \<and>
        consumed t = [] \<and> written t = [] \<and> threads t = [] \<and> inputQueue t = [''uci''])"
proof -
  have f: "AllocInputFails \<noteq> NoFault" and n: "\<not> list_ex is_init [EvSend ''uci'', EvTick]" by simp_all
  have "\<exists>t. exec_run echo_engine sys0 [EvInit AllocInputFails, EvSend ''uci'', EvTick] = Some t \<and>
      inputQueue t = [''uci'']"
    by (simp add: exec_simps)
  then obtain t where r: "runs echo_engine sys0 [EvInit AllocInputFails, EvSend ''uci'', EvTick] t"
      and q: "inputQueue t = [''uci'']"
    by (auto simp: runs_exec_run)
  from failed_init_never_consumes [OF f r n] r q f n show ?thesis by blast
qed

section \<open>More than one worker\<close>

text \<open>C27. With at most one \<open>nativeInit\<close>, whatever the callers and the engine do,
  there is at most one worker thread, so no two workers ever race on the
  \<open>InputBuffer\<close>.\<close>

theorem single_init_single_worker:
  assumes "runs E sys0 es s" and "length (filter is_init es) \<le> 1"
  shows "length (threads s) \<le> 1 \<and> \<not> racing_readers E s"
proof -
  have "length (threads s) \<le> 1"
    using runs_threads_bound [OF assms(1)] assms(2) by (simp add: sys0_def)
  moreover from this have "length (filter (reading E) (threads s)) \<le> 1"
    using length_filter_le [of "reading E" "threads s"] by linarith
  ultimately show ?thesis by (simp add: racing_readers_def)
qed

theorem single_init_single_worker_witness:
  "\<exists>s. runs echo_engine sys0 ping_events s \<and> length (filter is_init ping_events) \<le> 1 \<and>
       length (threads s) \<le> 1 \<and> \<not> racing_readers echo_engine s"
proof -
  obtain s where r: "runs echo_engine sys0 ping_events s" using ping_reachable by blast
  have n: "length (filter is_init ping_events) \<le> 1" by (simp add: ping_events_def)
  from single_init_single_worker [OF r n] r n show ?thesis by blast
qed

text \<open>C28. A worker blocked in \<open>InputBuffer::underflow\<close> stays blocked exactly while
  the input queue is empty; when a line arrives it takes it into the buffer it blocked
  in, whichever buffer \<open>std::cin\<close> holds by then, and reads the line's first
  character from it.\<close>

theorem blocked_worker_wakes_in_its_buffer:
  assumes "i < length (threads s)" and "threads s ! i = TReadWait w p" and "eng_step E w = WRead k"
  shows "(thread_step E i s = None \<longleftrightarrow> inputQueue s = []) \<and>
    (inputQueue s = l # q \<longrightarrow>
       thread_step E i s =
         Some (TIn ((l @ [NL]) ! 0),
               s\<lparr>inHeap := (inHeap s)[p := (inHeap s ! p)\<lparr>currentLine := l @ [NL], gnext := 1\<rparr>],
                 inputQueue := q, threads := (threads s)[i := TLoop (k ((l @ [NL]) ! 0))]\<rparr>))"
  using assms
  by (auto simp: thread_step_def uflow_def underflow_def Let_def split: list.splits)

theorem blocked_worker_wakes_in_its_buffer_witness:
  "thread_step echo_engine 0 ((bridge0 :: echo_st bridge)\<lparr>inHeap := [inbuf_init, inbuf_init],
      cinBuf := Some 1, inputQueue := [''go''], threads := [TReadWait (EReading []) 0]\<rparr>) =
   Some (TIn (CHR ''g''), (bridge0 :: echo_st bridge)\<lparr>inHeap := [\<lparr>currentLine = ''go'' @ [NL], gnext = 1\<rparr>, inbuf_init],
      cinBuf := Some 1, inputQueue := [], threads := [TLoop (EReading ''g'')]\<rparr>)"
proof -
  let ?s = "(bridge0 :: echo_st bridge)\<lparr>inHeap := [inbuf_init, inbuf_init],
      cinBuf := Some 1, inputQueue := [''go''], threads := [TReadWait (EReading []) 0]\<rparr>"
  have h: "0 < length (threads ?s)" "threads ?s ! 0 = TReadWait (EReading []) 0"
      "eng_step echo_engine (EReading []) = WRead (echo_read [])"
    by (simp_all add: echo_engine_def)
  from blocked_worker_wakes_in_its_buffer [OF h, of "''go''" "[]"] show ?thesis
    by (simp add: inbuf_init_def echo_read_def)
qed


text \<open>C29. A second \<open>nativeInit\<close> while the worker waits for a command corrupts the
  commands that follow: from any state in which the echo engine's worker is blocked in
  the \<open>underflow\<close> of the buffer under \<open>std::cin\<close> with nothing queued, for any two
  commands \<open>a # r\<close> and \<open>c\<close> (no newline, no NUL), there is a run in which, after
  the init, \<open>a # r\<close> is sent, the worker wakes inside the old \<open>InputBuffer\<close> and
  takes \<open>a\<close> from it, \<open>c\<close> is sent and the worker reads on through the new buffer:
  the engine reads the one line \<open>a # c\<close>, and \<open>r\<close> with its newline is stranded in
  the old buffer, which \<open>std::cin\<close> no longer reads.\<close>

theorem reinit_while_idle_corrupts:
  assumes i: "i < length (threads s)" and th: "threads s ! i = TReadWait (EReading acc) p"
    and cb: "cinBuf s = Some p" and p: "p < length (inHeap s)" and q: "inputQueue s = []"
    and c1: "no_nl (a # r)" "NUL \<notin> set (a # r)" and c2: "no_nl c" "NUL \<notin> set c"
  shows "\<exists>t. runs echo_engine s
             (EvInit NoFault # EvSend (a # r) # EvThread i # EvSend c # replicate (Suc (length c)) (EvThread i)) t \<and>
           sent t = sent s @ [a # r, c] \<and> consumed t = consumed s @ a # c @ [NL] \<and>
           threads t ! i = TLoop (echo_read (acc @ a # c) NL) \<and>
           cinBuf t \<noteq> Some p \<and> drop (gnext (inHeap t ! p)) (currentLine (inHeap t ! p)) = r @ [NL]"
proof -
  let ?n = "length (inHeap s)"
  have aNL: "a \<noteq> NL" using c1 by simp
  have "\<exists>s4. exec_run echo_engine s [EvInit NoFault, EvSend (a # r), EvThread i, EvSend c] = Some s4 \<and>
      length (threads s4) = Suc (length (threads s)) \<and> threads s4 ! i = TLoop (EReading (acc @ [a])) \<and>
      cinBuf s4 = Some ?n \<and> length (inHeap s4) = Suc ?n \<and> cin_stream s4 = c @ [NL] \<and>
      inHeap s4 ! p = (inHeap s ! p)\<lparr>currentLine := a # r @ [NL], gnext := 1\<rparr> \<and>
      sent s4 = sent s @ [a # r, c] \<and> consumed s4 = consumed s @ [a]"
    using i th cb p q c1 c2 aNL
    by (simp add: exec_ev_def nativeInit_def init_body_cases nativeSendCommand_def thread_step_def
        uflow_def underflow_def note_io_def echo_engine_def echo_read_def nth_append cin_stream_def
        in_stream_def inbuf_init_def)
  then obtain s4 where r4: "runs echo_engine s [EvInit NoFault, EvSend (a # r), EvThread i, EvSend c] s4"
      and l4: "length (threads s4) = Suc (length (threads s))"
      and t4: "threads s4 ! i = TLoop (EReading (acc @ [a]))" and cb4: "cinBuf s4 = Some ?n"
      and h4: "length (inHeap s4) = Suc ?n" and st4: "cin_stream s4 = c @ [NL]"
      and p4: "inHeap s4 ! p = (inHeap s ! p)\<lparr>currentLine := a # r @ [NL], gnext := 1\<rparr>"
      and se4: "sent s4 = sent s @ [a # r, c]" and co4: "consumed s4 = consumed s @ [a]"
    by (auto simp: runs_exec_run)
  have i4: "i < length (threads s4)" using i l4 by simp
  have n4: "?n < length (inHeap s4)" using h4 by simp
  obtain H Q where H: "length H = length (inHeap s4)" "in_stream (H ! ?n) Q = [NL]"
      "\<forall>j. j \<noteq> ?n \<longrightarrow> H ! j = inHeap s4 ! j"
    and r5: "runs echo_engine s4 (replicate (length c) (EvThread i))
      (s4\<lparr>inHeap := H, inputQueue := Q, threads := (threads s4)[i := TLoop (EReading ((acc @ [a]) @ c))],
          consumed := consumed s4 @ c\<rparr>)"
    using echo_reads [OF i4 t4 cb4 n4 st4 c2(1)] by blast
  let ?s5 = "s4\<lparr>inHeap := H, inputQueue := Q, threads := (threads s4)[i := TLoop (EReading ((acc @ [a]) @ c))],
          consumed := consumed s4 @ c\<rparr>"
  have h5: "i < length (threads ?s5)" "threads ?s5 ! i = TLoop (EReading ((acc @ [a]) @ c))"
      "cinBuf ?s5 = Some ?n" "?n < length (inHeap ?s5)" "cin_stream ?s5 = NL # []"
    using i4 cb4 n4 H by (simp_all add: cin_stream_def)
  obtain b' q' where r6: "sys_step echo_engine ?s5 (EvThread i)
      (?s5\<lparr>inHeap := (inHeap ?s5)[?n := b'], inputQueue := q',
          threads := (threads ?s5)[i := TLoop (echo_read ((acc @ [a]) @ c) NL)], consumed := consumed ?s5 @ [NL]\<rparr>)"
    using echo_read_step [OF h5] by blast
  let ?t = "?s5\<lparr>inHeap := (inHeap ?s5)[?n := b'], inputQueue := q',
          threads := (threads ?s5)[i := TLoop (echo_read ((acc @ [a]) @ c) NL)], consumed := consumed ?s5 @ [NL]\<rparr>"
  have run: "runs echo_engine s
      (EvInit NoFault # EvSend (a # r) # EvThread i # EvSend c # replicate (Suc (length c)) (EvThread i)) ?t"
  proof -
    have "runs echo_engine ?s5 [EvThread i] ?t" using r6 by (blast intro: runs.intros)
    with r4 r5 have "runs echo_engine s
        ([EvInit NoFault, EvSend (a # r), EvThread i, EvSend c] @ replicate (length c) (EvThread i) @ [EvThread i]) ?t"
      by (blast intro: runs_append)
    then show ?thesis by (simp add: replicate_append_same [symmetric])
  qed
  have "?n \<noteq> p" using p by simp
  then have "inHeap ?t ! p = (inHeap s ! p)\<lparr>currentLine := a # r @ [NL], gnext := 1\<rparr>"
    using H(3) p4 by simp
  with run se4 co4 i4 cb4 \<open>?n \<noteq> p\<close> show ?thesis by auto
qed


theorem reinit_while_idle_corrupts_witness:
  "\<exists>s t. runs echo_engine sys0 [EvInit NoFault, EvThread 0, EvThread 0] s \<and>
     threads s ! 0 = TReadWait (EReading []) 0 \<and>
     runs echo_engine s
       (EvInit NoFault # EvSend ''uci'' # EvThread 0 # EvSend ''isready'' #
        replicate (Suc (length ''isready'')) (EvThread 0)) t \<and>
     sent t = sent s @ [''uci'', ''isready''] \<and> consumed t = consumed s @ ''uisready'' @ [NL] \<and>
     drop (gnext (inHeap t ! 0)) (currentLine (inHeap t ! 0)) = ''ci'' @ [NL]"
proof -
  have "\<exists>s. exec_run echo_engine sys0 [EvInit NoFault, EvThread 0, EvThread 0] = Some s \<and>
      threads s = [TReadWait (EReading []) 0] \<and> cinBuf s = Some 0 \<and> length (inHeap s) = 1 \<and>
      inputQueue s = []"
    by (simp add: exec_simps echo_engine_def)
  then obtain s where r: "runs echo_engine sys0 [EvInit NoFault, EvThread 0, EvThread 0] s"
      and h: "threads s = [TReadWait (EReading []) 0]" "cinBuf s = Some 0" "length (inHeap s) = 1"
        "inputQueue s = []"
    by (auto simp: runs_exec_run)
  have a: "0 < length (threads s)" "threads s ! 0 = TReadWait (EReading []) 0" "cinBuf s = Some 0"
      "0 < length (inHeap s)" "inputQueue s = []"
      "no_nl (CHR ''u'' # ''ci'')" "NUL \<notin> set (CHR ''u'' # ''ci'')" "no_nl ''isready''" "NUL \<notin> set ''isready''"
    using h by (simp_all add: no_nl_def)
  from reinit_while_idle_corrupts [OF a] r h show ?thesis by auto
qed

section \<open>Logging\<close>

text \<open>Only \<open>LOGI\<close> entries are written by the workers, the sends, the reads and
  \<open>nativeDestroy\<close>; only the catch block of \<open>nativeInit\<close> writes an error.\<close>

lemma thread_step_errors:
  "thread_step E i s = Some (io, s') \<Longrightarrow> errors (syslog s') = errors (syslog s)"
  by (auto simp: thread_step_def errors_def split: if_splits tstate.splits wact.splits option.splits prod.splits)

lemma step_errors:
  "sys_step E s e t \<Longrightarrow>
     errors (syslog t) = errors (syslog s) @ (if failed_init e then [LOGE ''Failed to initialize Stockfish''] else [])"
proof (induction rule: sys_step.induct)
  case (init s f)
  then show ?case by (cases f) (simp_all add: nativeInit_def init_body_cases errors_def)
next
  case (thread i s io s')
  then show ?case by (simp add: thread_step_errors note_io_def split: tio.splits)
qed (simp_all add: nativeSendCommand_def nativeDestroy_def nativeReadLine_result_def errors_def
       split: if_splits list.splits)

text \<open>C30. The system log's error entries are exactly the failed inits: in every run
  from process start, with any engine, the log holds one \<open>ANDROID_LOG_ERROR\<close> entry
  \<open>Failed to initialize Stockfish\<close> per \<open>nativeInit\<close> that threw, in order, and
  no other error entry.\<close>

theorem init_errors_logged:
  assumes "runs E sys0 es s"
  shows "errors (syslog s) = replicate (length (filter failed_init es)) (LOGE ''Failed to initialize Stockfish'')"
proof -
  have "runs E s0 es s \<Longrightarrow> errors (syslog s) =
          errors (syslog s0) @ replicate (length (filter failed_init es)) (LOGE ''Failed to initialize Stockfish'')"
    for s0
  proof (induction rule: runs.induct)
    case (runs_cons s e t es u)
    then show ?case by (simp add: step_errors replicate_append_same)
  qed simp
  from this [OF assms] show ?thesis by (simp add: sys0_def errors_def)
qed

theorem init_errors_logged_witness:
  "\<exists>s. runs stockfish_stub sys0 [EvInit AllocInputFails, EvInit NoFault, EvThread 0] s \<and>
     errors (syslog s) = [LOGE ''Failed to initialize Stockfish''] \<and>
     errors (syslog s) = replicate (length (filter failed_init [EvInit AllocInputFails, EvInit NoFault, EvThread 0]))
       (LOGE ''Failed to initialize Stockfish'')"
proof -
  have "\<exists>s. exec_run stockfish_stub sys0 [EvInit AllocInputFails, EvInit NoFault, EvThread 0] = Some s"
    by (simp add: exec_simps stockfish_stub_def)
  then obtain s where r: "runs stockfish_stub sys0 [EvInit AllocInputFails, EvInit NoFault, EvThread 0] s"
    by (auto simp: runs_exec_run)
  from init_errors_logged [OF r] r show ?thesis by auto
qed

text \<open>C31. The linked stub's worker logs and returns: a started worker thread, in
  three steps, runs \<open>Stockfish::init()\<close> (logging its message), enters
  \<open>Stockfish::loop\<close> (logging its message) and returns, reading and writing nothing.\<close>

theorem stub_logs_and_returns:
  assumes "i < length (threads s)" and "threads s ! i = TStart"
  shows "\<exists>t. runs stockfish_stub s [EvThread i, EvThread i, EvThread i] t \<and> threads t ! i = TDone \<and>
           syslog t = syslog s @ [LOGI stub_init_msg, LOGI stub_loop_msg] \<and>
           consumed t = consumed s \<and> written t = written s \<and> inputQueue t = inputQueue s"
proof -
  have "\<exists>t. exec_run stockfish_stub s [EvThread i, EvThread i, EvThread i] = Some t \<and> threads t ! i = TDone \<and>
           syslog t = syslog s @ [LOGI stub_init_msg, LOGI stub_loop_msg] \<and>
           consumed t = consumed s \<and> written t = written s \<and> inputQueue t = inputQueue s"
    using assms by (simp add: exec_ev_def thread_step_def stockfish_stub_def note_io_def)
  then show ?thesis by (simp add: runs_exec_run)
qed

theorem stub_logs_and_returns_witness:
  "\<exists>t. runs stockfish_stub (snd (nativeInit NoFault (sys0 :: stub_pc sys))) [EvThread 0, EvThread 0, EvThread 0] t \<and>
     threads t ! 0 = TDone \<and>
     syslog t = [LOGI ''Stockfish engine initialized'', LOGI stub_init_msg, LOGI stub_loop_msg]"
proof -
  let ?s = "snd (nativeInit NoFault (sys0 :: stub_pc sys))"
  have h: "0 < length (threads ?s)" "threads ?s ! 0 = TStart" "syslog ?s = [LOGI ''Stockfish engine initialized'']"
    by (simp_all add: nativeInit_def init_body_cases sys0_def)
  from stub_logs_and_returns [OF h(1,2)] h(3) show ?thesis by auto
qed

section \<open>After the worker returns\<close>

text \<open>C32. Commands sent after the worker has returned are accepted and never read:
  once every worker thread has returned (after \<open>nativeDestroy\<close>'s \<open>quit\<close>, for
  instance), whatever the callers do without a new \<open>nativeInit\<close>, no worker reads or
  writes a character, and every line sent since stays on the input queue.\<close>

theorem commands_after_return_never_read:
  assumes "runs E s es t" and "\<not> list_ex is_init es" and "list_all (\<lambda>th. th = TDone) (threads s)"
  shows "consumed t = consumed s \<and> written t = written s \<and>
    (\<exists>ls. sent t = sent s @ ls \<and> inputQueue t = inputQueue s @ ls)"
  using done_runs_idle [OF assms] by blast

theorem commands_after_return_never_read_witness:
  "\<exists>s t. runs echo_engine sys0 quit_events s \<and> runs echo_engine s [EvSend ''uci'', EvTick] t \<and>
     threads s = [TDone] \<and> consumed t = consumed s \<and> written t = written s \<and>
     (\<exists>ls. sent t = sent s @ ls \<and> inputQueue t = inputQueue s @ ls) \<and> inputQueue t = [''uci'']"
proof -
  have "\<exists>s t. exec_run echo_engine sys0 quit_events = Some s \<and>
      exec_run echo_engine s [EvSend ''uci'', EvTick] = Some t \<and> threads s = [TDone] \<and>
      inputQueue t = [''uci'']"
    by (simp add: quit_events_def echo_engine_def echo_read_def echo_reply_def exec_simps)
  then obtain s t where r1: "runs echo_engine sys0 quit_events s"
      and r2: "runs echo_engine s [EvSend ''uci'', EvTick] t" and th: "threads s = [TDone]"
      and q: "inputQueue t = [''uci'']"
    by (auto simp: runs_exec_run)
  have n: "\<not> list_ex is_init [EvSend ''uci'', EvTick]" by simp
  from th have d: "list_all (\<lambda>th. th = TDone) (threads s)" by simp
  from commands_after_return_never_read [OF r2 n d] r1 r2 th q show ?thesis by blast
qed

end
